theory Spec2Isabelle
  imports Complex_Main "HOL-Library.AList"
begin

section \<open>JavaScript strings\<close>

text \<open>
  Strings are modelled as \<open>string\<close>, each character standing for the code unit of the
  same number, U+0000 to U+00FF. \<open>String.prototype.trim\<close> strips white space and line
  terminators at both ends; among these code units that is tab, line feed, vertical tab,
  form feed, carriage return, space and the no-break space U+00A0. The white space beyond
  U+00FF (the byte order mark, the Unicode space separators, U+2028 and U+2029) has no
  character in this model.
\<close>

definition is_space :: "char \<Rightarrow> bool" where
  "is_space c =
     (c \<in> set [CHR 0x09, CHR 0x0A, CHR 0x0B, CHR 0x0C, CHR 0x0D, CHR 0x20, CHR 0xA0])"

definition trim :: "string \<Rightarrow> string" where
  "trim s = rev (dropWhile is_space (rev (dropWhile is_space s)))"

text \<open>\<open>p.split('/').pop()\<close>: the characters after the last slash (all of \<open>p\<close> without one).\<close>

definition last_segment :: "string \<Rightarrow> string" where
  "last_segment p = rev (takeWhile (\<lambda>c. c \<noteq> CHR ''/'') (rev p))"

text \<open>\<open>a || b\<close> on strings: the empty string is the only falsy one.\<close>

definition or_else :: "string \<Rightarrow> string \<Rightarrow> string" where
  "or_else a b = (if a = [] then b else a)"

section \<open>The renderer: \<open>src/App.tsx\<close>\<close>

subsection \<open>Data (lines 34-43)\<close>

datatype UploadState = Idle | Uploading | Success | Error

record FileUpload =
  path :: string
  name :: string
  state :: UploadState
  progress :: int
  url :: "string option"
  error :: "string option"

datatype Service = GoogleDrive | ZeroXZero

text \<open>
  What a running \<open>uploadFile(fileIndex)\<close> call keeps in its closure across the
  \<open>await\<close>: the index, the entry read at the call (\<open>files[fileIndex]\<close>), and the
  \<open>selectedService\<close> and \<open>autoCopy\<close> of the render that created it.
\<close>

record Closure =
  fileIndex :: nat
  theFile :: FileUpload
  service :: Service
  copyOn :: bool

text \<open>
  The calls that leave the component, in the order they are made: the upload request to
  the main process, \<open>navigator.clipboard.writeText\<close> and \<open>showNotification(title, body, url)\<close>.
\<close>

datatype Effect =
  InvokeUpload string Service
  | ClipboardWrite string
  | ShowNotification string string string

text \<open>What the awaited call rejects with: an \<open>Error\<close> with its message, or another value.\<close>

datatype rejection = ErrorObject string | NonError

record App =
  files :: "FileUpload list"
  inflight :: "Closure list"
  effects :: "Effect list"
  selectedService :: Service
  autoCopy :: bool

definition init :: App where
  "init = \<lparr>files = [], inflight = [], effects = [], selectedService = ZeroXZero, autoCopy = False\<rparr>"

subsection \<open>Registry operations (lines 123-140, 203-205)\<close>

text \<open>\<open>prev.map((f, i) => i === k ? g(f) : f)\<close>\<close>

definition map_at :: "nat \<Rightarrow> ('a \<Rightarrow> 'a) \<Rightarrow> 'a list \<Rightarrow> 'a list" where
  "map_at k g xs = map (\<lambda>(i, f). if i = k then g f else f) (enumerate 0 xs)"

definition addFile :: "string \<Rightarrow> FileUpload list \<Rightarrow> FileUpload list" where
  "addFile filePath prev =
     (let fileName = or_else (last_segment filePath) filePath;
          newFile = \<lparr>path = filePath, name = fileName, state = Idle, progress = 0,
                     url = None, error = None\<rparr>
      in case find (\<lambda>f. path f = filePath) prev of
           Some existingFile \<Rightarrow> prev
         | None \<Rightarrow> prev @ [newFile])"

definition removeFile :: "nat \<Rightarrow> FileUpload list \<Rightarrow> FileUpload list" where
  "removeFile index prev = map snd (filter (\<lambda>(i, _). i \<noteq> index) (enumerate 0 prev))"

subsection \<open>\<open>uploadFile\<close> (lines 142-201), one definition per scheduled piece\<close>

text \<open>
  Lines 143-160, up to the \<open>await\<close>: nothing happens when \<open>files[fileIndex]\<close> is
  undefined; otherwise the entry at the index is set to uploading with progress 0, the
  interval is started and the upload is requested.
\<close>

definition uploadFile_begin :: "nat \<Rightarrow> App \<Rightarrow> App" where
  "uploadFile_begin i s =
     (if i < length (files s) then
        s\<lparr>files := map_at i (\<lambda>f. f\<lparr>state := Uploading, progress := 0\<rparr>) (files s),
          inflight := inflight s @
            [\<lparr>fileIndex = i, theFile = files s ! i, service = selectedService s,
              copyOn = autoCopy s\<rparr>],
          effects := effects s @ [InvokeUpload (path (files s ! i)) (selectedService s)]\<rparr>
      else s)"

text \<open>Lines 150-157: one firing of the interval.\<close>

definition progressInterval :: "Closure \<Rightarrow> FileUpload list \<Rightarrow> FileUpload list" where
  "progressInterval c prev =
     map_at (fileIndex c)
       (\<lambda>f. if state f = Uploading \<and> progress f < 90 then f\<lparr>progress := progress f + 10\<rparr> else f)
       prev"

definition notificationBody :: "Closure \<Rightarrow> string" where
  "notificationBody c =
     (if copyOn c then name (theFile c) @ '' uploaded successfully! Link copied to clipboard.''
      else name (theFile c) @ '' uploaded successfully! Click to view in app.'')"

text \<open>
  Lines 161-189: the continuation when the awaited call resolves with \<open>u\<close>. The
  clipboard write and the notification request return promises that nobody awaits, so
  neither can take the continuation into the \<open>catch\<close> below.
\<close>

definition uploadFile_resolved :: "Closure \<Rightarrow> string \<Rightarrow> App \<Rightarrow> App" where
  "uploadFile_resolved c u s =
     s\<lparr>files := map_at (fileIndex c)
                 (\<lambda>f. f\<lparr>state := Success, progress := 100, url := Some (trim u)\<rparr>) (files s),
       effects := effects s
         @ (if copyOn c \<and> u \<noteq> [] then [ClipboardWrite (trim u)] else [])
         @ (if u \<noteq> [] then
              [ShowNotification ''FastDrop - Upload Complete'' (notificationBody c) (trim u)]
            else [])\<rparr>"

text \<open>Lines 190-200: the continuation when the awaited call rejects.\<close>

definition uploadFile_rejected :: "Closure \<Rightarrow> rejection \<Rightarrow> App \<Rightarrow> App" where
  "uploadFile_rejected c r s =
     s\<lparr>files := map_at (fileIndex c)
                 (\<lambda>f. f\<lparr>state := Error, progress := 0,
                        error := Some (case r of ErrorObject m \<Rightarrow> m | NonError \<Rightarrow> ''Upload failed'')\<rparr>)
                 (files s)\<rparr>"

subsection \<open>The component as a transition system\<close>

text \<open>
  What can happen to the component. \<open>UploadClick i\<close> is the Upload button of row \<open>i\<close>,
  which is rendered only for an idle entry (lines 415-423); \<open>RemoveClick i\<close> is the
  remove button of row \<open>i\<close> (line 437), rendered for every entry. \<open>Tick k\<close>,
  \<open>Resolve k u\<close> and \<open>Reject k r\<close> are the interval firing and the awaited call
  settling for the \<open>k\<close>-th \<open>uploadFile\<close> call still in flight; settling clears the
  interval and ends the call.
\<close>

datatype Event =
  AddFile string
  | UploadClick nat
  | RemoveClick nat
  | Tick nat
  | Resolve nat string
  | Reject nat rejection
  | SetAutoCopy bool
  | SelectService Service

definition settle :: "nat \<Rightarrow> App \<Rightarrow> App" where
  "settle k s = s\<lparr>inflight := take k (inflight s) @ drop (Suc k) (inflight s)\<rparr>"

fun step :: "Event \<Rightarrow> App \<Rightarrow> App" where
  "step (AddFile p) s = s\<lparr>files := addFile p (files s)\<rparr>"
| "step (UploadClick i) s =
     (if i < length (files s) \<and> state (files s ! i) = Idle then uploadFile_begin i s else s)"
| "step (RemoveClick i) s = s\<lparr>files := removeFile i (files s)\<rparr>"
| "step (Tick k) s =
     (if k < length (inflight s) then s\<lparr>files := progressInterval (inflight s ! k) (files s)\<rparr>
      else s)"
| "step (Resolve k u) s =
     (if k < length (inflight s) then uploadFile_resolved (inflight s ! k) u (settle k s) else s)"
| "step (Reject k r) s =
     (if k < length (inflight s) then uploadFile_rejected (inflight s ! k) r (settle k s) else s)"
| "step (SetAutoCopy b) s = s\<lparr>autoCopy := b\<rparr>"
| "step (SelectService v) s = s\<lparr>selectedService := v\<rparr>"

text \<open>The events of a list, applied from the left.\<close>

definition run :: "Event list \<Rightarrow> App \<Rightarrow> App" where
  "run evs s = foldl (\<lambda>s e. step e s) s evs"

text \<open>The entry of a path: \<open>files.find(f => f.path === p)\<close>.\<close>

definition entry :: "string \<Rightarrow> App \<Rightarrow> FileUpload option" where
  "entry p s = find (\<lambda>f. path f = p) (files s)"

section \<open>The main process: \<open>src/main.ts\<close>\<close>

subsection \<open>Exceptions and parsed JSON\<close>

text \<open>
  A thrown \<open>Error\<close> object: its \<open>name\<close> and its \<open>message\<close>. A template literal
  \<open>`${error}`\<close> renders it with \<open>Error.prototype.toString\<close>.
\<close>

datatype js_exn = JsError string string

fun exn_to_string :: "js_exn \<Rightarrow> string" where
  "exn_to_string (JsError n m) = (if n = [] then m else if m = [] then n else n @ '': '' @ m)"

fun message :: "js_exn \<Rightarrow> string" where
  "message (JsError n m) = m"

definition new_Error :: "string \<Rightarrow> js_exn" where
  "new_Error m = JsError ''Error'' m"

text \<open>
  A number as \<open>JSON.parse\<close> can return it: a finite value (by its exact value, \<open>0\<close>
  being the positive zero), the negative zero of the text \<open>-0\<close>, or an infinity, which
  is what a literal beyond the double range such as \<open>1e309\<close> parses to. \<open>JSON.parse\<close>
  never returns NaN.
\<close>

datatype jsnum = Finite rat | NegZero | PosInfinity | NegInfinity

text \<open>What \<open>JSON.parse\<close> returns, and \<open>undefined\<close> for a property that is not there.\<close>

datatype jsval =
  JUndefined
  | JNull
  | JBool bool
  | JNum jsnum
  | JStr string
  | JArr "jsval list"
  | JObj "(string \<times> jsval) list"

fun truthy :: "jsval \<Rightarrow> bool" where
  "truthy JUndefined = False"
| "truthy JNull = False"
| "truthy (JBool b) = b"
| "truthy (JNum n) =
     (case n of Finite q \<Rightarrow> q \<noteq> 0 | NegZero \<Rightarrow> False | PosInfinity \<Rightarrow> True
      | NegInfinity \<Rightarrow> True)"
| "truthy (JStr s) = (s \<noteq> [])"
| "truthy (JArr xs) = True"
| "truthy (JObj kvs) = True"

text \<open>
  \<open>v.k\<close> for the keys the handlers read (\<open>googleCredentials\<close>, \<open>clientId\<close>,
  \<open>clientSecret\<close>, \<open>autoStart\<close>, \<open>autoCopy\<close>): a TypeError on \<open>null\<close> and
  \<open>undefined\<close>, the stored value on an object that has the key, \<open>undefined\<close> otherwise.
\<close>

text \<open>A key between single quotes, as the messages of the engine show it.\<close>

definition quoted :: "string \<Rightarrow> string" where
  "quoted k = [CHR 0x27] @ k @ [CHR 0x27]"

fun get_prop :: "jsval \<Rightarrow> string \<Rightarrow> js_exn + jsval" where
  "get_prop JUndefined k =
     Inl (JsError ''TypeError''
            (''Cannot read properties of undefined (reading '' @ quoted k @ '')''))"
| "get_prop JNull k =
     Inl (JsError ''TypeError'' (''Cannot read properties of null (reading '' @ quoted k @ '')''))"
| "get_prop (JObj kvs) k = Inr (case map_of kvs k of None \<Rightarrow> JUndefined | Some v \<Rightarrow> v)"
| "get_prop v k = Inr JUndefined"





text \<open>Sequencing of steps that may throw.\<close>

definition and_then :: "js_exn + 'a \<Rightarrow> ('a \<Rightarrow> js_exn + 'b) \<Rightarrow> js_exn + 'b" where
  "and_then r k = (case r of Inl e \<Rightarrow> Inl e | Inr v \<Rightarrow> k v)"

subsection \<open>The persisted configuration, \<open>~/.fastdrop/config.json\<close>\<close>

text \<open>
  The file as the handlers meet it: absent (\<open>existsSync\<close> is false), present but
  \<open>readFile\<close> throws, read but \<open>JSON.parse\<close> throws, or parsed to a value. Writing
  \<open>JSON.stringify(config, null, 2)\<close> leaves a file that parses to
  \<open>json_roundtrip config\<close>. \<open>mkdir_fails\<close> and \<open>write_fails\<close> are what
  \<open>ensureConfigDir\<close> and \<open>writeFile\<close> throw, if they do; a failed write is taken to
  leave the file as it was.
\<close>

datatype disk = NoFile | Unreadable js_exn | Corrupt js_exn | Json jsval






text \<open>Lines 416-437: the body of the \<open>try\<close>, then the handler with its \<open>catch\<close>.\<close>

definition get_google_credentials_try :: "disk \<Rightarrow> js_exn + jsval" where
  "get_google_credentials_try d =
     (case d of
        NoFile \<Rightarrow> Inr JNull
      | Unreadable e \<Rightarrow> Inl e
      | Corrupt e \<Rightarrow> Inl e
      | Json config \<Rightarrow>
          and_then (get_prop config ''googleCredentials'') (\<lambda>gc.
            if \<not> truthy gc then Inr JNull
            else and_then (get_prop gc ''clientId'') (\<lambda>cid.
              if \<not> truthy cid then Inr JNull
              else and_then (get_prop gc ''clientSecret'') (\<lambda>cs.
                if \<not> truthy cs then Inr JNull
                else Inr (JObj [(''clientId'', cid), (''clientSecret'', cs)])))))"

definition get_google_credentials :: "disk \<Rightarrow> js_exn + jsval" where
  "get_google_credentials d =
     (case get_google_credentials_try d of Inl e \<Rightarrow> Inr JNull | Inr v \<Rightarrow> Inr v)"

text \<open>Lines 579-593.\<close>

definition get_auto_copy_try :: "disk \<Rightarrow> js_exn + jsval" where
  "get_auto_copy_try d =
     (case d of
        NoFile \<Rightarrow> Inr (JBool False)
      | Unreadable e \<Rightarrow> Inl e
      | Corrupt e \<Rightarrow> Inl e
      | Json config \<Rightarrow>
          and_then (get_prop config ''autoCopy'')
            (\<lambda>v. Inr (if truthy v then v else JBool False)))"

definition get_auto_copy :: "disk \<Rightarrow> js_exn + jsval" where
  "get_auto_copy d =
     (case get_auto_copy_try d of Inl e \<Rightarrow> Inr (JBool False) | Inr v \<Rightarrow> Inr v)"

text \<open>
  A field of the persisted record as a later read sees it: \<open>undefined\<close> when there is no
  readable record or the record has no such field.
\<close>

definition persisted_field :: "disk \<Rightarrow> string \<Rightarrow> jsval" where
  "persisted_field d k =
     (case d of
        Json config \<Rightarrow> (case get_prop config k of Inl e \<Rightarrow> JUndefined | Inr v \<Rightarrow> v)
      | _ \<Rightarrow> JUndefined)"

text \<open>
  A complete credentials record: an object under \<open>googleCredentials\<close> whose
  \<open>clientId\<close> and \<open>clientSecret\<close> are both there and not empty.
\<close>

definition complete_credentials :: "disk \<Rightarrow> bool" where
  "complete_credentials d =
     (truthy (persisted_field d ''googleCredentials'')
      \<and> (case persisted_field d ''googleCredentials'' of
            JObj kvs \<Rightarrow>
              (case (map_of kvs ''clientId'', map_of kvs ''clientSecret'') of
                 (Some a, Some b) \<Rightarrow> truthy a \<and> truthy b
               | _ \<Rightarrow> False)
          | _ \<Rightarrow> False))"

subsection \<open>The providers and the upload handler\<close>

text \<open>The network calls a provider makes, in order.\<close>

datatype NetCall =
  Post0x0 string
  | DriveFilesCreate jsval jsval string
  | DrivePermissionsCreate string

record Response =
  status :: nat
  statusText :: string
  body :: string

text \<open>\<open>response.ok\<close>: the status is in the range 200-299.\<close>

definition response_ok :: "Response \<Rightarrow> bool" where
  "response_ok r = (200 \<le> status r \<and> status r \<le> 299)"

text \<open>A number in a template literal: its decimal digits.\<close>

definition digit :: "nat \<Rightarrow> char" where
  "digit n = ''0123456789'' ! n"

function dec :: "nat \<Rightarrow> string" where
  "dec n = (if n < 10 then [digit n] else dec (n div 10) @ [digit (n mod 10)])"
  by pat_completeness auto
termination
  by (relation "measure (\<lambda>n. n)") auto

declare dec.simps [simp del]

text \<open>
  What the handler finds around it: the configuration file, the two environment
  variables, whether \<open>readFile(filePath)\<close> throws, and how each remote call ends
  (\<open>drive_files_create\<close> gives \<open>response.data.id\<close>, if any).
\<close>

record World =
  config_file :: disk
  env_client_id :: "string option"
  env_client_secret :: "string option"
  read_fails :: "js_exn option"
  fetch_0x0 :: "js_exn + Response"
  drive_files_create :: "js_exn + string option"
  drive_permissions_create :: "js_exn + unit"

text \<open>Lines 275-295.\<close>

definition uploadTo0x0 :: "World \<Rightarrow> string \<Rightarrow> (js_exn + string) \<times> NetCall list" where
  "uploadTo0x0 w fileName =
     (case fetch_0x0 w of
        Inl e \<Rightarrow> (Inl e, [Post0x0 fileName])
      | Inr response \<Rightarrow>
          if \<not> response_ok response then
            (Inl (new_Error (''Upload to 0x0.st failed: '' @ dec (status response) @ '' ''
                   @ statusText response @ '' - '' @ body response)),
             [Post0x0 fileName])
          else (Inr (trim (body response)), [Post0x0 fileName]))"

text \<open>Lines 302-316: the stored credentials, or the exception that sends to the fallback.\<close>

definition stored_credentials :: "disk \<Rightarrow> js_exn + jsval \<times> jsval" where
  "stored_credentials d =
     (case d of
        NoFile \<Rightarrow> Inl (new_Error ''No config file'')
      | Unreadable e \<Rightarrow> Inl e
      | Corrupt e \<Rightarrow> Inl e
      | Json config \<Rightarrow>
          and_then (get_prop config ''googleCredentials'') (\<lambda>gc.
            if truthy gc then
              and_then (get_prop gc ''clientId'') (\<lambda>cid.
                and_then (get_prop gc ''clientSecret'') (\<lambda>cs. Inr (cid, cs)))
            else Inl (new_Error ''No stored credentials'')))"

text \<open>\<open>process.env.X || ''\<close>\<close>

definition env_or_empty :: "string option \<Rightarrow> string" where
  "env_or_empty v = (case v of None \<Rightarrow> [] | Some s \<Rightarrow> s)"

text \<open>Lines 299-321: \<open>CLIENT_ID\<close> and \<open>CLIENT_SECRET\<close> after the inner \<open>try\<close>/\<open>catch\<close>.\<close>

definition resolve_credentials :: "World \<Rightarrow> jsval \<times> jsval" where
  "resolve_credentials w =
     (case stored_credentials (config_file w) of
        Inr c \<Rightarrow> c
      | Inl e \<Rightarrow> (JStr (env_or_empty (env_client_id w)), JStr (env_or_empty (env_client_secret w))))"

text \<open>Lines 323-363: the body of the outer \<open>try\<close> after the credentials are resolved.\<close>

definition drive_upload :: "World \<Rightarrow> string \<Rightarrow> (js_exn + string) \<times> NetCall list" where
  "drive_upload w fileName =
     (let (CLIENT_ID, CLIENT_SECRET) = resolve_credentials w in
      if \<not> truthy CLIENT_ID \<or> \<not> truthy CLIENT_SECRET then
        (Inl (new_Error ''Google Drive credentials not configured. Please configure them in the settings.''), [])
      else
        (case drive_files_create w of
           Inl e \<Rightarrow> (Inl e, [DriveFilesCreate CLIENT_ID CLIENT_SECRET fileName])
         | Inr None \<Rightarrow>
             (Inl (new_Error ''Failed to upload file to Google Drive''),
              [DriveFilesCreate CLIENT_ID CLIENT_SECRET fileName])
         | Inr (Some fileId) \<Rightarrow>
             if fileId = [] then
               (Inl (new_Error ''Failed to upload file to Google Drive''),
                [DriveFilesCreate CLIENT_ID CLIENT_SECRET fileName])
             else
               (case drive_permissions_create w of
                  Inl e \<Rightarrow>
                    (Inl e, [DriveFilesCreate CLIENT_ID CLIENT_SECRET fileName,
                             DrivePermissionsCreate fileId])
                | Inr u \<Rightarrow>
                    (Inr (''https://drive.google.com/file/d/'' @ fileId @ ''/view''),
                     [DriveFilesCreate CLIENT_ID CLIENT_SECRET fileName,
                      DrivePermissionsCreate fileId]))))"

text \<open>Lines 297-368, with the outer \<open>catch\<close> (lines 364-367).\<close>

definition uploadToGoogleDrive :: "World \<Rightarrow> string \<Rightarrow> (js_exn + string) \<times> NetCall list" where
  "uploadToGoogleDrive w fileName =
     (case drive_upload w fileName of
        (Inl e, calls) \<Rightarrow> (Inl (new_Error (''Google Drive upload failed: '' @ exn_to_string e)), calls)
      | (Inr u, calls) \<Rightarrow> (Inr u, calls))"

text \<open>Lines 262-269: the provider chosen by the service tag, after the file is read.\<close>

definition provider :: "World \<Rightarrow> string \<Rightarrow> Service \<Rightarrow> (js_exn + string) \<times> NetCall list" where
  "provider w filePath svc =
     (case read_fails w of
        Some e \<Rightarrow> (Inl e, [])
      | None \<Rightarrow>
          (let fileName = or_else (last_segment filePath) ''file'' in
           case svc of
             ZeroXZero \<Rightarrow> uploadTo0x0 w fileName
           | GoogleDrive \<Rightarrow> uploadToGoogleDrive w fileName))"

text \<open>Lines 260-273: the \<open>upload-file\<close> handler.\<close>

definition upload_file :: "World \<Rightarrow> string \<Rightarrow> Service \<Rightarrow> (js_exn + string) \<times> NetCall list" where
  "upload_file w filePath svc =
     (case provider w filePath svc of
        (Inl e, calls) \<Rightarrow> (Inl (new_Error (''Upload failed: '' @ exn_to_string e)), calls)
      | (Inr u, calls) \<Rightarrow> (Inr u, calls))"

text \<open>
  A surrounding in which nothing fails: no configuration file, no environment variables,
  a readable file, and remote calls that succeed. The examples below vary it.
\<close>

definition world0 :: World where
  "world0 =
     \<lparr>config_file = NoFile, env_client_id = None, env_client_secret = None, read_fails = None,
      fetch_0x0 = Inr \<lparr>status = 200, statusText = ''OK'', body = ''https://0x0.st/abc.txt''\<rparr>,
      drive_files_create = Inr (Some ''id1''), drive_permissions_create = Inr ()\<rparr>"

section \<open>Invariants of the component\<close>

text \<open>What holds of every entry the component can reach, by state.\<close>

definition entry_inv :: "FileUpload \<Rightarrow> bool" where
  "entry_inv f =
     (case state f of
        Idle \<Rightarrow> progress f = 0
      | Uploading \<Rightarrow> 0 \<le> progress f \<and> progress f \<le> 90 \<and> progress f mod 10 = 0
      | Success \<Rightarrow> progress f = 100
      | Error \<Rightarrow> progress f = 0)"

definition app_inv :: "App \<Rightarrow> bool" where
  "app_inv s = (distinct (map path (files s)) \<and> (\<forall>f \<in> set (files s). entry_inv f))"

text \<open>
  The moves of the upload state machine, a stay included; the events that remove an
  entry; and what holds of the calls in flight while nothing has been removed: their
  indices differ and each points at an entry that is uploading.
\<close>

definition legal_move :: "UploadState \<Rightarrow> UploadState \<Rightarrow> bool" where
  "legal_move a b =
     (a = b \<or> (a = Idle \<and> b = Uploading) \<or> (a = Uploading \<and> (b = Success \<or> b = Error)))"

fun is_removal :: "Event \<Rightarrow> bool" where
  "is_removal (RemoveClick i) = True"
| "is_removal e = False"

definition flight_inv :: "App \<Rightarrow> bool" where
  "flight_inv s =
     (distinct (map fileIndex (inflight s))
      \<and> (\<forall>c \<in> set (inflight s).
            fileIndex c < length (files s) \<and> state (files s ! fileIndex c) = Uploading))"

section \<open>Properties\<close>

subsection \<open>The registry and the reachable states\<close>

lemma map_at_nth: "map_at k g xs = (if k < length xs then xs[k := g (xs ! k)] else xs)"
  by (auto simp: map_at_def list_eq_iff_nth_eq nth_enumerate_eq)

lemma removeFile_take_drop: "removeFile i xs = take i xs @ drop (Suc i) xs"
proof -
  have "\<And>n. map snd (filter (\<lambda>(j, _). j \<noteq> n + i) (enumerate n xs)) = take i xs @ drop (Suc i) xs"
  proof (induction xs arbitrary: i)
    case Nil
    then show ?case by simp
  next
    case (Cons x xs)
    show ?case
    proof (cases i)
      case 0
      have "filter (\<lambda>(j, _). j \<noteq> n) (enumerate (Suc n) xs) = enumerate (Suc n) xs"
        by (rule filter_True) (auto simp: in_set_enumerate_eq)
      with 0 show ?thesis by simp
    next
      case (Suc k)
      with Cons.IH [of "Suc n" k] show ?thesis by simp
    qed
  qed
  from this [of 0] show ?thesis by (simp add: removeFile_def)
qed

lemma set_removeFile: "set (removeFile i xs) \<subseteq> set xs"
  by (auto simp: removeFile_take_drop dest: in_set_takeD in_set_dropD)

lemma distinct_take_drop_Suc: "distinct ys \<Longrightarrow> distinct (take i ys @ drop (Suc i) ys)"
  by (simp add: set_take_disj_set_drop_if_distinct)

lemma distinct_removeFile: "distinct (map path xs) \<Longrightarrow> distinct (map path (removeFile i xs))"
  using distinct_take_drop_Suc [of "map path xs" i]
  by (simp add: removeFile_take_drop take_map drop_map)

lemma distinct_addFile: "distinct (map path xs) \<Longrightarrow> distinct (map path (addFile p xs))"
  by (auto simp: addFile_def Let_def find_None_iff split: option.splits)

lemma set_map_at: "f' \<in> set (map_at k g xs) \<Longrightarrow> f' \<in> set xs \<or> (k < length xs \<and> f' = g (xs ! k))"
  using set_update_subset_insert [of xs k "g (xs ! k)"]
  by (auto simp: map_at_nth split: if_splits)

lemma map_path_map_at: "(\<And>f. path (g f) = path f) \<Longrightarrow> map path (map_at k g xs) = map path xs"
  by (simp add: map_at_nth map_update list_update_same_conv)

lemma entry_inv_map_at:
  assumes "\<forall>f \<in> set xs. entry_inv f" and "\<And>f. f \<in> set xs \<Longrightarrow> entry_inv f \<Longrightarrow> entry_inv (g f)"
  shows "\<forall>f \<in> set (map_at k g xs). entry_inv f"
  using assms set_map_at [of _ k g xs] by (metis nth_mem)

lemma entry_inv_tick:
  assumes "entry_inv f"
  shows "entry_inv (if state f = Uploading \<and> progress f < 90 then f\<lparr>progress := progress f + 10\<rparr> else f)"
proof (cases "state f = Uploading \<and> progress f < 90")
  case True
  with assms have "0 \<le> progress f" "progress f mod 10 = 0" "progress f < 90"
    by (simp_all add: entry_inv_def)
  then have "0 \<le> progress f + 10 \<and> progress f + 10 \<le> 90 \<and> (progress f + 10) mod 10 = 0"
    by presburger
  with True show ?thesis by (simp add: entry_inv_def)
next
  case False
  with assms show ?thesis by auto
qed

lemma app_inv_init: "app_inv init"
  by (simp add: app_inv_def init_def)

lemma app_inv_step: "app_inv s \<Longrightarrow> app_inv (step e s)"
proof (cases e)
  case (AddFile p)
  assume "app_inv s"
  then show ?thesis unfolding AddFile app_inv_def
    by (auto simp: distinct_addFile) (auto simp: addFile_def Let_def entry_inv_def split: option.splits)
next
  case (UploadClick i)
  assume a: "app_inv s"
  have "\<forall>f \<in> set (map_at i (\<lambda>f. f\<lparr>state := Uploading, progress := 0\<rparr>) (files s)). entry_inv f"
    using a by (intro entry_inv_map_at) (auto simp: app_inv_def entry_inv_def)
  then show ?thesis using a unfolding UploadClick app_inv_def
    by (simp add: uploadFile_begin_def map_path_map_at)
next
  case (RemoveClick i)
  assume "app_inv s"
  then show ?thesis unfolding RemoveClick app_inv_def
    using set_removeFile [of i "files s"] by (auto simp: distinct_removeFile)
next
  case (Tick k)
  assume a: "app_inv s"
  have "\<forall>f \<in> set (progressInterval c (files s)). entry_inv f" for c
    unfolding progressInterval_def using a
    by (intro entry_inv_map_at) (simp_all add: app_inv_def entry_inv_tick)
  then show ?thesis using a unfolding Tick app_inv_def
    by (simp add: progressInterval_def map_path_map_at)
next
  case (Resolve k u)
  assume a: "app_inv s"
  have "\<forall>f \<in> set (map_at i (\<lambda>f. f\<lparr>state := Success, progress := 100, url := Some (trim u)\<rparr>) (files s)). entry_inv f" for i
    using a by (intro entry_inv_map_at) (auto simp: app_inv_def entry_inv_def)
  then show ?thesis using a unfolding Resolve app_inv_def
    by (simp add: uploadFile_resolved_def settle_def map_path_map_at)
next
  case (Reject k r)
  assume a: "app_inv s"
  have "\<forall>f \<in> set (map_at i (\<lambda>f. f\<lparr>state := Error, progress := 0, error := Some m\<rparr>) (files s)). entry_inv f" for i m
    using a by (intro entry_inv_map_at) (auto simp: app_inv_def entry_inv_def)
  then show ?thesis using a unfolding Reject app_inv_def
    by (simp add: uploadFile_rejected_def settle_def map_path_map_at)
next
  case (SetAutoCopy b)
  assume "app_inv s"
  then show ?thesis unfolding SetAutoCopy by (simp add: app_inv_def)
next
  case (SelectService v)
  assume "app_inv s"
  then show ?thesis unfolding SelectService by (simp add: app_inv_def)
qed

lemma app_inv_run: "app_inv s \<Longrightarrow> app_inv (run evs s)"
  unfolding run_def by (induction evs arbitrary: s) (simp_all add: app_inv_step)


lemma path_unique:
  "distinct (map path xs) \<Longrightarrow> f \<in> set xs \<Longrightarrow> f' \<in> set xs \<Longrightarrow> path f = path f' \<Longrightarrow> f = f'"
  by (meson distinct_map inj_onD)

lemma find_path_SomeD: "find (\<lambda>f. path f = p) xs = Some f \<Longrightarrow> f \<in> set xs \<and> path f = p"
  by (auto simp: find_Some_iff)

lemma entry_map_at:
  assumes d: "distinct (map path xs)"
    and f: "find (\<lambda>f. path f = p) xs = Some f"
    and f': "find (\<lambda>f. path f = p) (map_at k g xs) = Some f'"
    and g: "\<And>h. path (g h) = path h"
  shows "f' = f \<or> (k < length xs \<and> f = xs ! k \<and> f' = g f)"
proof -
  from find_path_SomeD [OF f] have fm: "f \<in> set xs" and fp: "path f = p" by simp_all
  from find_path_SomeD [OF f'] have fn: "f' \<in> set (map_at k g xs)" and fq: "path f' = p"
    by simp_all
  from set_map_at [OF fn] show ?thesis
  proof
    assume a: "f' \<in> set xs"
    have "path f = path f'" by (simp add: fp fq)
    from path_unique [OF d fm a this] show ?thesis by simp
  next
    assume a: "k < length xs \<and> f' = g (xs ! k)"
    then have m: "xs ! k \<in> set xs" by simp
    from a have "path f' = path (xs ! k)" by (simp add: g)
    then have "path f = path (xs ! k)" by (simp add: fp fq)
    from path_unique [OF d fm m this] a show ?thesis by simp
  qed
qed

lemma entry_step_event:
  assumes inv: "app_inv s" and f: "entry p s = Some f" and f': "entry p (step e s) = Some f'"
  shows "case e of
      UploadClick i \<Rightarrow> f' = f \<or> (state f = Idle \<and> f' = f\<lparr>state := Uploading, progress := 0\<rparr>)
    | Tick k \<Rightarrow>
        f' = f \<or> (state f = Uploading \<and> progress f < 90 \<and> f' = f\<lparr>progress := progress f + 10\<rparr>)
    | Resolve k u \<Rightarrow>
        f' = f \<or> (k < length (inflight s) \<and> fileIndex (inflight s ! k) < length (files s)
                  \<and> f = files s ! fileIndex (inflight s ! k)
                  \<and> f' = f\<lparr>state := Success, progress := 100, url := Some (trim u)\<rparr>)
    | Reject k r \<Rightarrow>
        f' = f \<or> (k < length (inflight s) \<and> fileIndex (inflight s ! k) < length (files s)
                  \<and> f = files s ! fileIndex (inflight s ! k)
                  \<and> (\<exists>m. f' = f\<lparr>state := Error, progress := 0, error := Some m\<rparr>))
    | _ \<Rightarrow> f' = f"
proof -
  from inv have d: "distinct (map path (files s))" by (simp add: app_inv_def)
  from app_inv_step [OF inv, of e] have d': "distinct (map path (files (step e s)))"
    by (simp add: app_inv_def)
  from find_path_SomeD [OF f [unfolded entry_def]]
  have 1: "f \<in> set (files s)" "path f = p" by simp_all
  from find_path_SomeD [OF f' [unfolded entry_def]]
  have 2: "f' \<in> set (files (step e s))" "path f' = p" by simp_all
  show ?thesis
  proof (cases e)
    case (AddFile q)
    have "set (files s) \<subseteq> set (files (step e s))"
      by (auto simp: AddFile addFile_def Let_def split: option.splits)
    with 1 2 d' have "f = f'" by (intro path_unique [of "files (step e s)"]) auto
    then show ?thesis by (simp add: AddFile)
  next
    case (RemoveClick i)
    from 2 have "f' \<in> set (files s)" using set_removeFile [of i "files s"] by (auto simp: RemoveClick)
    with 1 2 d have "f = f'" by (intro path_unique [of "files s"]) auto
    then show ?thesis by (simp add: RemoveClick)
  next
    case (UploadClick i)
    show ?thesis
    proof (cases "i < length (files s) \<and> state (files s ! i) = Idle")
      case True
      with f' have "find (\<lambda>f. path f = p) (map_at i (\<lambda>f. f\<lparr>state := Uploading, progress := 0\<rparr>) (files s)) = Some f'"
        by (simp add: UploadClick entry_def uploadFile_begin_def)
      from entry_map_at [OF d f [unfolded entry_def] this] True
      have "f' = f \<or> (state f = Idle \<and> f' = f\<lparr>state := Uploading, progress := 0\<rparr>)"
        by auto
      then show ?thesis by (simp add: UploadClick)
    next
      case False
      then have "step e s = s" by (auto simp: UploadClick)
      with f f' show ?thesis by (simp add: UploadClick)
    qed
  next
    case (Tick k)
    show ?thesis
    proof (cases "k < length (inflight s)")
      case True
      with f' have "find (\<lambda>f. path f = p) (progressInterval (inflight s ! k) (files s)) = Some f'"
        by (simp add: Tick entry_def)
      moreover have "path (if state h = Uploading \<and> progress h < 90
          then h\<lparr>progress := progress h + 10\<rparr> else h) = path h" for h :: FileUpload
        by simp
      ultimately have "f' = f \<or> (fileIndex (inflight s ! k) < length (files s) \<and>
          f = files s ! fileIndex (inflight s ! k) \<and>
          f' = (if state f = Uploading \<and> progress f < 90
                then f\<lparr>progress := progress f + 10\<rparr> else f))"
        using entry_map_at [OF d f [unfolded entry_def], of "fileIndex (inflight s ! k)"
          "\<lambda>f. if state f = Uploading \<and> progress f < 90 then f\<lparr>progress := progress f + 10\<rparr> else f" f']
        unfolding progressInterval_def by blast
      then have "f' = f \<or> f' = (if state f = Uploading \<and> progress f < 90
                             then f\<lparr>progress := progress f + 10\<rparr> else f)"
        by auto
      then have "f' = f \<or> (state f = Uploading \<and> progress f < 90 \<and> f' = f\<lparr>progress := progress f + 10\<rparr>)"
        by (cases "state f = Uploading \<and> progress f < 90") simp_all
      then show ?thesis by (simp add: Tick)
    next
      case False
      with f f' show ?thesis by (simp add: Tick)
    qed
  next
    case (Resolve k u)
    show ?thesis
    proof (cases "k < length (inflight s)")
      case True
      with f' have "find (\<lambda>f. path f = p) (map_at (fileIndex (inflight s ! k))
          (\<lambda>f. f\<lparr>state := Success, progress := 100, url := Some (trim u)\<rparr>) (files s)) = Some f'"
        by (simp add: Resolve entry_def uploadFile_resolved_def settle_def)
      from entry_map_at [OF d f [unfolded entry_def] this] True
      have "f' = f \<or> (k < length (inflight s) \<and> fileIndex (inflight s ! k) < length (files s)
                  \<and> f = files s ! fileIndex (inflight s ! k)
                  \<and> f' = f\<lparr>state := Success, progress := 100, url := Some (trim u)\<rparr>)"
        by auto
      then show ?thesis by (simp add: Resolve)
    next
      case False
      with f f' show ?thesis by (simp add: Resolve)
    qed
  next
    case (Reject k r)
    show ?thesis
    proof (cases "k < length (inflight s)")
      case True
      with f' have "find (\<lambda>f. path f = p) (map_at (fileIndex (inflight s ! k))
          (\<lambda>f. f\<lparr>state := Error, progress := 0,
                 error := Some (case r of ErrorObject m \<Rightarrow> m | NonError \<Rightarrow> ''Upload failed'')\<rparr>) (files s)) = Some f'"
        by (simp add: Reject entry_def uploadFile_rejected_def settle_def)
      from entry_map_at [OF d f [unfolded entry_def] this] True
      have "f' = f \<or> (k < length (inflight s) \<and> fileIndex (inflight s ! k) < length (files s)
                  \<and> f = files s ! fileIndex (inflight s ! k)
                  \<and> (\<exists>m. f' = f\<lparr>state := Error, progress := 0, error := Some m\<rparr>))"
        by auto
      then show ?thesis by (simp add: Reject)
    next
      case False
      with f f' show ?thesis by (simp add: Reject)
    qed
  next
    case (SetAutoCopy b)
    with f f' show ?thesis by (simp add: entry_def)
  next
    case (SelectService v)
    with f f' show ?thesis by (simp add: entry_def)
  qed
qed

lemma entry_step:
  assumes inv: "app_inv s" and f: "entry p s = Some f" and f': "entry p (step e s) = Some f'"
  shows "f' = f
    \<or> (state f = Idle \<and> f' = f\<lparr>state := Uploading, progress := 0\<rparr>)
    \<or> (state f = Uploading \<and> progress f < 90 \<and> f' = f\<lparr>progress := progress f + 10\<rparr>)
    \<or> (\<exists>u. f' = f\<lparr>state := Success, progress := 100, url := Some u\<rparr>)
    \<or> (\<exists>m. f' = f\<lparr>state := Error, progress := 0, error := Some m\<rparr>)"
  using entry_step_event [OF inv f f'] by (cases e) auto

subsection \<open>Progress\<close>

text \<open>
  Claim C3. In every state the component reaches from its start, the progress of an entry
  is between 0 and 100, at most 90 while the entry is uploading, exactly 100 once it is
  a success and exactly 0 once it is an error. Across any single event an uploading entry
  either stays uploading with its progress unchanged or raised by the step 10, or becomes
  a success with progress 100, or an error with progress 0.
\<close>

theorem progress_range_and_monotone:
  "s = run evs init \<and> entry p s = Some f \<longrightarrow>
     0 \<le> progress f \<and> progress f \<le> 100
     \<and> (state f = Uploading \<longrightarrow> progress f \<le> 90)
     \<and> (state f = Success \<longrightarrow> progress f = 100)
     \<and> (state f = Error \<longrightarrow> progress f = 0)
     \<and> (\<forall>e f'. state f = Uploading \<and> entry p (step e s) = Some f' \<longrightarrow>
           (state f' = Uploading \<and> (progress f' = progress f \<or> progress f' = progress f + 10))
           \<or> (state f' = Success \<and> progress f' = 100)
           \<or> (state f' = Error \<and> progress f' = 0))"
proof (intro impI, elim conjE)
  assume s: "s = run evs init" and f: "entry p s = Some f"
  from s have inv: "app_inv s" by (simp add: app_inv_run app_inv_init)
  from find_path_SomeD [OF f [unfolded entry_def]] have "f \<in> set (files s)" by simp
  with inv have ef: "entry_inv f" by (simp add: app_inv_def)
  have range: "0 \<le> progress f \<and> progress f \<le> 100
     \<and> (state f = Uploading \<longrightarrow> progress f \<le> 90)
     \<and> (state f = Success \<longrightarrow> progress f = 100)
     \<and> (state f = Error \<longrightarrow> progress f = 0)"
    using ef by (cases "state f") (simp_all add: entry_inv_def)
  have mono: "(state f' = Uploading \<and> (progress f' = progress f \<or> progress f' = progress f + 10))
           \<or> (state f' = Success \<and> progress f' = 100)
           \<or> (state f' = Error \<and> progress f' = 0)"
    if "state f = Uploading" "entry p (step e s) = Some f'" for e f'
    using entry_step [OF inv f that(2)] that(1) by (elim disjE exE conjE) simp_all
  from range mono show "0 \<le> progress f \<and> progress f \<le> 100
     \<and> (state f = Uploading \<longrightarrow> progress f \<le> 90)
     \<and> (state f = Success \<longrightarrow> progress f = 100)
     \<and> (state f = Error \<longrightarrow> progress f = 0)
     \<and> (\<forall>e f'. state f = Uploading \<and> entry p (step e s) = Some f' \<longrightarrow>
           (state f' = Uploading \<and> (progress f' = progress f \<or> progress f' = progress f + 10))
           \<or> (state f' = Success \<and> progress f' = 100)
           \<or> (state f' = Error \<and> progress f' = 0))"
    by blast
qed

theorem progress_range_and_monotone_witness:
  "entry ''/a'' (run [AddFile ''/a'', UploadClick 0, Tick 0] init)
     = Some \<lparr>path = ''/a'', name = ''a'', state = Uploading, progress = 10, url = None, error = None\<rparr>
   \<and> entry ''/a'' (step (Tick 0) (run [AddFile ''/a'', UploadClick 0, Tick 0] init))
     = Some \<lparr>path = ''/a'', name = ''a'', state = Uploading, progress = 20, url = None, error = None\<rparr>
   \<and> (10::int) \<le> 90 \<and> (20::int) = 10 + 10"
proof -
  have a: "entry ''/a'' (run [AddFile ''/a'', UploadClick 0, Tick 0] init)
     = Some \<lparr>path = ''/a'', name = ''a'', state = Uploading, progress = 10, url = None, error = None\<rparr>"
    by code_simp
  have b: "entry ''/a'' (step (Tick 0) (run [AddFile ''/a'', UploadClick 0, Tick 0] init))
     = Some \<lparr>path = ''/a'', name = ''a'', state = Uploading, progress = 20, url = None, error = None\<rparr>"
    by code_simp
  from a b progress_range_and_monotone [of "run [AddFile ''/a'', UploadClick 0, Tick 0] init"
      "[AddFile ''/a'', UploadClick 0, Tick 0]" "''/a''"
      "\<lparr>path = ''/a'', name = ''a'', state = Uploading, progress = 10, url = None, error = None\<rparr>"]
  show ?thesis by simp
qed

subsection \<open>Adding a path\<close>

lemma path_mem_addFile: "p \<in> set (map path (addFile p xs))"
proof (cases "find (\<lambda>f. path f = p) xs")
  case None
  then show ?thesis by (simp add: addFile_def Let_def)
next
  case (Some e)
  from find_path_SomeD [OF Some] have "e \<in> set xs" "path e = p" by simp_all
  then have "p \<in> path ` set xs" by blast
  with Some show ?thesis by (simp add: addFile_def Let_def)
qed

lemma addFile_existing: "find (\<lambda>f. path f = p) prev = Some e \<Longrightarrow> addFile p prev = prev"
  by (simp add: addFile_def Let_def)

lemma addFile_twice: "addFile p (addFile p prev) = addFile p prev"
proof (cases "find (\<lambda>f. path f = p) prev")
  case None
  have "p \<in> path ` set (addFile p prev)" using path_mem_addFile [of p prev] by simp
  then have "find (\<lambda>f. path f = p) (addFile p prev) \<noteq> None"
    by (auto simp: find_None_iff)
  then obtain e where "find (\<lambda>f. path f = p) (addFile p prev) = Some e" by blast
  then show ?thesis by (rule addFile_existing)
next
  case (Some e)
  then show ?thesis by (simp add: addFile_existing)
qed

lemma count_path_distinct:
  "distinct (map path xs) \<Longrightarrow> p \<in> set (map path xs) \<Longrightarrow> length (filter (\<lambda>f. path f = p) xs) = 1"
proof (induction xs)
  case Nil
  then show ?case by simp
next
  case (Cons x xs)
  show ?case
  proof (cases "path x = p")
    case True
    with Cons.prems have "p \<notin> path ` set xs" by simp
    then have "\<forall>f \<in> set xs. path f \<noteq> p" by blast
    then have "filter (\<lambda>f. path f = p) xs = []" by (simp add: filter_empty_conv)
    with True show ?thesis by simp
  next
    case False
    with Cons show ?thesis by auto
  qed
qed

text \<open>
  Claim C6. Adding a path that already has an entry leaves the registry as it is, with the
  existing entry and no duplicate; adding a path that has none appends one entry in state
  idle with progress 0. Adding the same path twice is the same as adding it once, and
  after two additions in any state the component reaches there is exactly one entry of
  that path.
\<close>

theorem addFile_idempotent:
  "(find (\<lambda>f. path f = p) prev = Some e \<longrightarrow> addFile p prev = prev)
   \<and> (find (\<lambda>f. path f = p) prev = None \<longrightarrow>
        addFile p prev = prev @ [\<lparr>path = p, name = or_else (last_segment p) p, state = Idle,
                                 progress = 0, url = None, error = None\<rparr>])
   \<and> addFile p (addFile p prev) = addFile p prev
   \<and> (s = run evs init \<longrightarrow>
        length (filter (\<lambda>f. path f = p) (files (step (AddFile p) (step (AddFile p) s)))) = 1)"
proof (intro conjI impI)
  assume "find (\<lambda>f. path f = p) prev = Some e"
  then show "addFile p prev = prev" by (rule addFile_existing)
next
  assume "find (\<lambda>f. path f = p) prev = None"
  then show "addFile p prev = prev @ [\<lparr>path = p, name = or_else (last_segment p) p, state = Idle,
                                 progress = 0, url = None, error = None\<rparr>]"
    by (simp add: addFile_def Let_def)
next
  show "addFile p (addFile p prev) = addFile p prev" by (rule addFile_twice)
next
  assume "s = run evs init"
  then have "app_inv (step (AddFile p) (step (AddFile p) s))"
    by (simp only: app_inv_step app_inv_run app_inv_init)
  then have "distinct (map path (files (step (AddFile p) (step (AddFile p) s))))"
    by (simp add: app_inv_def)
  moreover have "p \<in> set (map path (files (step (AddFile p) (step (AddFile p) s))))"
    using path_mem_addFile [of p "addFile p (files s)"] by simp
  ultimately show "length (filter (\<lambda>f. path f = p) (files (step (AddFile p) (step (AddFile p) s)))) = 1"
    by (rule count_path_distinct)
qed

theorem addFile_idempotent_witness:
  "find (\<lambda>f. path f = ''/a'')
       [\<lparr>path = ''/a'', name = ''a'', state = Success, progress = 100, url = Some ''u'', error = None\<rparr>]
     = Some \<lparr>path = ''/a'', name = ''a'', state = Success, progress = 100, url = Some ''u'', error = None\<rparr>
   \<and> addFile ''/a''
       [\<lparr>path = ''/a'', name = ''a'', state = Success, progress = 100, url = Some ''u'', error = None\<rparr>]
     = [\<lparr>path = ''/a'', name = ''a'', state = Success, progress = 100, url = Some ''u'', error = None\<rparr>]
   \<and> find (\<lambda>f. path f = ''/a'') [] = None
   \<and> addFile ''/a'' []
     = [\<lparr>path = ''/a'', name = ''a'', state = Idle, progress = 0, url = None, error = None\<rparr>]
   \<and> length (filter (\<lambda>f. path f = ''/a'')
        (files (step (AddFile ''/a'') (step (AddFile ''/a'') (run [] init))))) = 1"
proof -
  have a: "or_else (last_segment ''/a'') ''/a'' = ''a''" by code_simp
  from a addFile_idempotent [of "''/a''"
      "[\<lparr>path = ''/a'', name = ''a'', state = Success, progress = 100, url = Some ''u'', error = None\<rparr>]"
      "\<lparr>path = ''/a'', name = ''a'', state = Success, progress = 100, url = Some ''u'', error = None\<rparr>"
      "run [] init" "[]"]
    addFile_idempotent [of "''/a''" "[]" "\<lparr>path = [], name = [], state = Idle, progress = 0, url = None, error = None\<rparr>" "run [] init" "[]"]
  show ?thesis by simp
qed

subsection \<open>Side effects of a settled upload\<close>

text \<open>
  Claim C8 as stated fails when the upload resolves with the empty string: the entry
  becomes a success, auto-copy is on, and nothing is written to the clipboard, because
  line 173 guards the copy with \<open>autoCopy && url\<close>. The handler does return the empty
  string, when 0x0.st answers in the 200 range with an empty body.
\<close>

theorem autocopy_empty_url_counterexample:
  "map state (files (run [AddFile ''/a'', SetAutoCopy True, UploadClick 0] init)) = [Uploading]
   \<and> map copyOn (inflight (run [AddFile ''/a'', SetAutoCopy True, UploadClick 0] init)) = [True]
   \<and> map state (files (run [AddFile ''/a'', SetAutoCopy True, UploadClick 0, Resolve 0 []] init))
       = [Success]
   \<and> effects (run [AddFile ''/a'', SetAutoCopy True, UploadClick 0, Resolve 0 []] init)
       = effects (run [AddFile ''/a'', SetAutoCopy True, UploadClick 0] init)
   \<and> fst (upload_file (world0\<lparr>fetch_0x0 := Inr \<lparr>status = 200, statusText = ''OK'', body = []\<rparr>\<rparr>)
         ''/a'' ZeroXZero) = Inr []"
  by code_simp

text \<open>
  Claim C8, amended. When an upload resolves with a non-empty URL while auto-copy is
  enabled, the calls made are exactly one clipboard write followed by one notification,
  both carrying the trimmed URL, which is also the URL stored in the entry at the call's
  index. When an upload resolves with the empty string or rejects, no call is made at
  all. Auto-copy is enabled here both in the component's state and in the value the
  running call read when it started; an upload during which the setting was switched is
  not covered.
\<close>

theorem success_side_effects:
  "(k < length (inflight s) \<and> autoCopy s \<and> copyOn (inflight s ! k) \<and> u \<noteq> [] \<longrightarrow>
      effects (step (Resolve k u) s)
        = effects s @ [ClipboardWrite (trim u),
                       ShowNotification ''FastDrop - Upload Complete''
                         (notificationBody (inflight s ! k)) (trim u)]
      \<and> (fileIndex (inflight s ! k) < length (files s) \<longrightarrow>
           state (files (step (Resolve k u) s) ! fileIndex (inflight s ! k)) = Success
           \<and> url (files (step (Resolve k u) s) ! fileIndex (inflight s ! k)) = Some (trim u)))
   \<and> effects (step (Resolve k []) s) = effects s
   \<and> effects (step (Reject k r) s) = effects s"
  by (simp add: uploadFile_resolved_def uploadFile_rejected_def settle_def map_at_nth)

theorem success_side_effects_witness:
  "effects (step (Resolve 0 '' http://u '')
       (run [AddFile ''/a'', SetAutoCopy True, UploadClick 0] init))
     = [InvokeUpload ''/a'' ZeroXZero, ClipboardWrite ''http://u'',
        ShowNotification ''FastDrop - Upload Complete''
          ''a uploaded successfully! Link copied to clipboard.'' ''http://u'']
   \<and> map url (files (step (Resolve 0 '' http://u '')
       (run [AddFile ''/a'', SetAutoCopy True, UploadClick 0] init))) = [Some ''http://u'']
   \<and> effects (step (Reject 0 NonError) (run [AddFile ''/a'', SetAutoCopy True, UploadClick 0] init))
     = [InvokeUpload ''/a'' ZeroXZero]"
proof -
  have a: "run [AddFile ''/a'', SetAutoCopy True, UploadClick 0] init
    = \<lparr>files = [\<lparr>path = ''/a'', name = ''a'', state = Uploading, progress = 0, url = None, error = None\<rparr>],
       inflight = [\<lparr>fileIndex = 0,
           theFile = \<lparr>path = ''/a'', name = ''a'', state = Idle, progress = 0, url = None, error = None\<rparr>,
           service = ZeroXZero, copyOn = True\<rparr>],
       effects = [InvokeUpload ''/a'' ZeroXZero], selectedService = ZeroXZero, autoCopy = True\<rparr>"
    by code_simp
  have b: "trim '' http://u '' = ''http://u''" by code_simp
  from success_side_effects [of 0 "run [AddFile ''/a'', SetAutoCopy True, UploadClick 0] init"
      "'' http://u ''" NonError] b
  show ?thesis unfolding a
    by (simp add: notificationBody_def uploadFile_resolved_def settle_def map_at_nth)
qed

text \<open>
  What the amended claim leaves out: the running call reads the \<open>autoCopy\<close> of the
  render in which Upload was clicked (line 173), so switching the setting off while the
  upload is in flight does not stop the copy.
\<close>

lemma stale_auto_copy_setting:
  "autoCopy (run [AddFile ''/a'', SetAutoCopy True, UploadClick 0, SetAutoCopy False] init) = False
   \<and> effects (run [AddFile ''/a'', SetAutoCopy True, UploadClick 0, SetAutoCopy False,
                    Resolve 0 ''http://u''] init)
       = [InvokeUpload ''/a'' ZeroXZero, ClipboardWrite ''http://u'',
          ShowNotification ''FastDrop - Upload Complete''
            ''a uploaded successfully! Link copied to clipboard.'' ''http://u'']"
  by code_simp

subsection \<open>Removal while an upload is in flight\<close>

lemma nth_notin_take_drop:
  "distinct ys \<Longrightarrow> i < length ys \<Longrightarrow> ys ! i \<notin> set (take i ys @ drop (Suc i) ys)"
proof -
  assume d: "distinct ys" and i: "i < length ys"
  from i have "ys = take i ys @ ys ! i # drop (Suc i) ys" by (rule id_take_nth_drop)
  with d have "distinct (take i ys @ ys ! i # drop (Suc i) ys)" by simp
  then show ?thesis by simp
qed

lemma find_path_None: "(find (\<lambda>f. path f = p) xs = None) = (p \<notin> set (map path xs))"
  by (induction xs) auto

lemma entry_removed:
  assumes "distinct (map path xs)" and "i < length xs"
  shows "find (\<lambda>f. path f = path (xs ! i)) (removeFile i xs) = None"
proof -
  from assms have "map path xs ! i \<notin> set (take i (map path xs) @ drop (Suc i) (map path xs))"
    by (intro nth_notin_take_drop) simp_all
  with assms(2) have "path (xs ! i) \<notin> set (map path (removeFile i xs))"
    by (simp add: removeFile_take_drop take_map drop_map)
  then show ?thesis by (simp add: find_path_None)
qed

lemma find_path_cong:
  "map path xs = map path ys \<Longrightarrow>
     (find (\<lambda>f. path f = p) xs = None) = (find (\<lambda>f. path f = p) ys = None)"
  by (simp only: find_path_None)

text \<open>
  Claim C1 as stated fails: the entry is removed while its upload is in flight, the upload
  then resolves, and the notification is requested all the same. Nothing in
  \<open>uploadFile\<close> looks at whether the entry is still there.
\<close>

theorem late_resolution_counterexample:
  "files (run [AddFile ''/a'', UploadClick 0, RemoveClick 0] init) = []
   \<and> map (\<lambda>c. path (theFile c)) (inflight (run [AddFile ''/a'', UploadClick 0, RemoveClick 0] init))
       = [''/a'']
   \<and> effects (run [AddFile ''/a'', UploadClick 0, RemoveClick 0] init) = [InvokeUpload ''/a'' ZeroXZero]
   \<and> effects (run [AddFile ''/a'', UploadClick 0, RemoveClick 0, Resolve 0 ''http://u''] init)
       = [InvokeUpload ''/a'' ZeroXZero,
          ShowNotification ''FastDrop - Upload Complete''
            ''a uploaded successfully! Click to view in app.'' ''http://u'']"
  by code_simp

text \<open>
  Claim C1, amended. In any state the component reaches, when an entry is removed and an
  upload in flight then resolves, the continuation runs to its end (it has no failing
  branch), the removed path has no entry afterwards, and the registry keeps the paths,
  names and number of entries it had after the removal. The notification is still
  requested whenever the URL is not empty.
\<close>

theorem late_resolution_after_removal:
  "s = run evs init \<and> i < length (files s) \<and> k < length (inflight s) \<longrightarrow>
     entry (path (files s ! i)) (step (Resolve k u) (step (RemoveClick i) s)) = None
     \<and> map path (files (step (Resolve k u) (step (RemoveClick i) s)))
         = map path (files (step (RemoveClick i) s))
     \<and> map name (files (step (Resolve k u) (step (RemoveClick i) s)))
         = map name (files (step (RemoveClick i) s))
     \<and> length (files (step (Resolve k u) (step (RemoveClick i) s))) = length (files s) - 1
     \<and> (u \<noteq> [] \<longrightarrow>
          last (effects (step (Resolve k u) (step (RemoveClick i) s)))
            = ShowNotification ''FastDrop - Upload Complete''
                (notificationBody (inflight s ! k)) (trim u))"
proof (intro impI, elim conjE)
  assume s: "s = run evs init" and i: "i < length (files s)" and k: "k < length (inflight s)"
  let ?s1 = "step (RemoveClick i) s"
  let ?s2 = "step (Resolve k u) ?s1"
  from s have "app_inv s" by (simp add: app_inv_run app_inv_init)
  then have d: "distinct (map path (files s))" by (simp add: app_inv_def)
  have p: "map path (files ?s2) = map path (files ?s1)"
    using k by (simp add: uploadFile_resolved_def settle_def map_path_map_at)
  have n: "map name (files ?s2) = map name (files ?s1)"
    using k by (simp add: uploadFile_resolved_def settle_def map_at_nth map_update list_update_same_conv)
  have "find (\<lambda>f. path f = path (files s ! i)) (files ?s1) = None"
    using entry_removed [OF d i] by simp
  with find_path_cong [OF p] have e: "entry (path (files s ! i)) ?s2 = None"
    by (simp add: entry_def)
  have "length (map path (files ?s2)) = length (map path (files ?s1))" using p by simp
  then have "length (files ?s2) = length (files ?s1)" by simp
  also have "\<dots> = length (files s) - 1" using i by (simp add: removeFile_take_drop)
  finally have l: "length (files ?s2) = length (files s) - 1" .
  have x: "u \<noteq> [] \<longrightarrow> last (effects ?s2)
      = ShowNotification ''FastDrop - Upload Complete'' (notificationBody (inflight s ! k)) (trim u)"
    using k by (simp add: uploadFile_resolved_def settle_def)
  from e p n l x show "entry (path (files s ! i)) ?s2 = None
     \<and> map path (files ?s2) = map path (files ?s1)
     \<and> map name (files ?s2) = map name (files ?s1)
     \<and> length (files ?s2) = length (files s) - 1
     \<and> (u \<noteq> [] \<longrightarrow> last (effects ?s2)
            = ShowNotification ''FastDrop - Upload Complete''
                (notificationBody (inflight s ! k)) (trim u))"
    by blast
qed

theorem late_resolution_after_removal_witness:
  "entry ''/a'' (step (Resolve 0 ''http://u'') (step (RemoveClick 0)
       (run [AddFile ''/a'', UploadClick 0] init))) = None
   \<and> files (step (Resolve 0 ''http://u'') (step (RemoveClick 0)
       (run [AddFile ''/a'', UploadClick 0] init))) = []
   \<and> last (effects (step (Resolve 0 ''http://u'') (step (RemoveClick 0)
       (run [AddFile ''/a'', UploadClick 0] init))))
     = ShowNotification ''FastDrop - Upload Complete''
         ''a uploaded successfully! Click to view in app.'' ''http://u''"
proof -
  have a: "run [AddFile ''/a'', UploadClick 0] init
    = \<lparr>files = [\<lparr>path = ''/a'', name = ''a'', state = Uploading, progress = 0, url = None, error = None\<rparr>],
       inflight = [\<lparr>fileIndex = 0,
           theFile = \<lparr>path = ''/a'', name = ''a'', state = Idle, progress = 0, url = None, error = None\<rparr>,
           service = ZeroXZero, copyOn = False\<rparr>],
       effects = [InvokeUpload ''/a'' ZeroXZero], selectedService = ZeroXZero, autoCopy = False\<rparr>"
    by code_simp
  have b: "trim ''http://u'' = ''http://u''" by code_simp
  have c: "files (step (Resolve 0 ''http://u'') (step (RemoveClick 0)
       (run [AddFile ''/a'', UploadClick 0] init))) = []"
    by code_simp
  from late_resolution_after_removal [of "run [AddFile ''/a'', UploadClick 0] init"
      "[AddFile ''/a'', UploadClick 0]" 0 0 "''http://u''"] b c
  show ?thesis by (simp add: a notificationBody_def)
qed

text \<open>
  Claim C2 on a failing run. Two files are added and both uploads started; the second
  succeeds; the first entry is removed, which moves the second to index 0; the first
  upload then rejects and its continuation, which addresses the registry by the index it
  captured, turns the second entry from success to error. In the same way a resolution
  after a removal turns an idle entry into a success without passing through uploading.
\<close>

theorem terminal_state_left_after_removal:
  "map_option state (entry ''/b''
      (run [AddFile ''/a'', AddFile ''/b'', UploadClick 0, UploadClick 1, Resolve 1 ''http://u''] init))
     = Some Success
   \<and> map_option state (entry ''/b''
      (run [AddFile ''/a'', AddFile ''/b'', UploadClick 0, UploadClick 1, Resolve 1 ''http://u'',
            RemoveClick 0, Reject 0 (ErrorObject ''boom'')] init))
     = Some Error
   \<and> map_option state (entry ''/b''
      (run [AddFile ''/a'', AddFile ''/b'', UploadClick 0, RemoveClick 0] init))
     = Some Idle
   \<and> map_option state (entry ''/b''
      (run [AddFile ''/a'', AddFile ''/b'', UploadClick 0, RemoveClick 0, Resolve 0 ''http://u''] init))
     = Some Success"
  by code_simp

subsection \<open>The anonymous host\<close>

lemma trim_decomposition:
  "s = takeWhile is_space s @ trim s @ rev (takeWhile is_space (rev (dropWhile is_space s)))"
proof -
  let ?t = "dropWhile is_space s"
  have "rev (takeWhile is_space (rev ?t) @ dropWhile is_space (rev ?t)) = rev (rev ?t)"
    by (simp only: takeWhile_dropWhile_id)
  then have "rev (dropWhile is_space (rev ?t)) @ rev (takeWhile is_space (rev ?t)) = ?t"
    by (simp only: rev_append rev_rev_ident)
  then have "?t = trim s @ rev (takeWhile is_space (rev ?t))" by (simp only: trim_def)
  moreover have "s = takeWhile is_space s @ ?t" by simp
  ultimately show ?thesis by simp
qed

lemma trim_framed:
  "\<exists>pre post. s = pre @ trim s @ post \<and> (\<forall>c \<in> set pre. is_space c) \<and> (\<forall>c \<in> set post. is_space c)"
proof (intro exI conjI)
  show "s = takeWhile is_space s @ trim s @ rev (takeWhile is_space (rev (dropWhile is_space s)))"
    by (rule trim_decomposition)
  show "\<forall>c \<in> set (takeWhile is_space s). is_space c" by (auto dest: set_takeWhileD)
  show "\<forall>c \<in> set (rev (takeWhile is_space (rev (dropWhile is_space s)))). is_space c"
    by (auto dest: set_takeWhileD)
qed

lemma trim_ends:
  assumes "trim s \<noteq> []"
  shows "\<not> is_space (hd (trim s)) \<and> \<not> is_space (last (trim s))"
proof -
  let ?t = "dropWhile is_space s"
  let ?u = "dropWhile is_space (rev ?t)"
  from assms have u: "?u \<noteq> []" by (simp add: trim_def)
  have t: "?t \<noteq> []"
  proof
    assume e: "?t = []"
    have "dropWhile is_space (rev []) = []" by simp
    then have "?u = []" by (simp only: e)
    with u show False by simp
  qed
  have "last (trim s) = hd ?u" using u by (simp add: trim_def last_rev)
  moreover have "\<not> is_space (hd ?u)" using u by (rule hd_dropWhile)
  moreover have "hd (trim s) = last ?u" using u by (simp add: trim_def hd_rev)
  moreover have "last ?u = last (rev ?t)"
  proof -
    have "last (takeWhile is_space (rev ?t) @ ?u) = last ?u" using u by (rule last_appendR)
    then show ?thesis by (simp only: takeWhile_dropWhile_id)
  qed
  moreover have "last (rev ?t) = hd ?t" using t by (simp add: last_rev)
  moreover have "\<not> is_space (hd ?t)" using t by (rule hd_dropWhile)
  ultimately show ?thesis by simp
qed

text \<open>
  Claim C7. When the request to 0x0.st gets a response: outside the status range 200-299
  the upload fails with an error whose message carries the status, the status text and
  the body; inside the range it returns the body trimmed, which is the body with only
  white space taken off both ends and which neither starts nor ends with white space.
  One request is made in either case.
\<close>

theorem uploadTo0x0_result:
  "fetch_0x0 w = Inr r \<longrightarrow>
     (\<not> (200 \<le> status r \<and> status r \<le> 299) \<longrightarrow>
        fst (uploadTo0x0 w fileName)
          = Inl (JsError ''Error'' (''Upload to 0x0.st failed: '' @ dec (status r) @ '' ''
                  @ statusText r @ '' - '' @ body r)))
     \<and> (200 \<le> status r \<and> status r \<le> 299 \<longrightarrow>
        fst (uploadTo0x0 w fileName) = Inr (trim (body r))
        \<and> (\<exists>pre post. body r = pre @ trim (body r) @ post
              \<and> (\<forall>c \<in> set pre. is_space c) \<and> (\<forall>c \<in> set post. is_space c))
        \<and> (trim (body r) \<noteq> [] \<longrightarrow>
              \<not> is_space (hd (trim (body r))) \<and> \<not> is_space (last (trim (body r)))))
     \<and> snd (uploadTo0x0 w fileName) = [Post0x0 fileName]"
proof (intro impI)
  assume f: "fetch_0x0 w = Inr r"
  show "(\<not> (200 \<le> status r \<and> status r \<le> 299) \<longrightarrow>
        fst (uploadTo0x0 w fileName)
          = Inl (JsError ''Error'' (''Upload to 0x0.st failed: '' @ dec (status r) @ '' ''
                  @ statusText r @ '' - '' @ body r)))
     \<and> (200 \<le> status r \<and> status r \<le> 299 \<longrightarrow>
        fst (uploadTo0x0 w fileName) = Inr (trim (body r))
        \<and> (\<exists>pre post. body r = pre @ trim (body r) @ post
              \<and> (\<forall>c \<in> set pre. is_space c) \<and> (\<forall>c \<in> set post. is_space c))
        \<and> (trim (body r) \<noteq> [] \<longrightarrow>
              \<not> is_space (hd (trim (body r))) \<and> \<not> is_space (last (trim (body r)))))
     \<and> snd (uploadTo0x0 w fileName) = [Post0x0 fileName]"
  proof (intro conjI impI)
    assume "\<not> (200 \<le> status r \<and> status r \<le> 299)"
    with f show "fst (uploadTo0x0 w fileName)
          = Inl (JsError ''Error'' (''Upload to 0x0.st failed: '' @ dec (status r) @ '' ''
                  @ statusText r @ '' - '' @ body r))"
      by (simp add: uploadTo0x0_def response_ok_def new_Error_def)
  next
    assume "200 \<le> status r \<and> status r \<le> 299"
    with f show "fst (uploadTo0x0 w fileName) = Inr (trim (body r))"
      by (simp add: uploadTo0x0_def response_ok_def)
  next
    show "\<exists>pre post. body r = pre @ trim (body r) @ post
              \<and> (\<forall>c \<in> set pre. is_space c) \<and> (\<forall>c \<in> set post. is_space c)"
      by (rule trim_framed)
  next
    assume "trim (body r) \<noteq> []"
    from trim_ends [OF this] show "\<not> is_space (hd (trim (body r)))" by (rule conjunct1)
  next
    assume "trim (body r) \<noteq> []"
    from trim_ends [OF this] show "\<not> is_space (last (trim (body r)))" by (rule conjunct2)
  next
    from f show "snd (uploadTo0x0 w fileName) = [Post0x0 fileName]"
      by (simp add: uploadTo0x0_def)
  qed
qed

theorem uploadTo0x0_result_witness:
  "fst (uploadTo0x0
      (world0\<lparr>fetch_0x0 := Inr \<lparr>status = 500, statusText = ''Internal Server Error'', body = ''oops''\<rparr>\<rparr>)
      ''f.txt'')
     = Inl (JsError ''Error'' ''Upload to 0x0.st failed: 500 Internal Server Error - oops'')
   \<and> fst (uploadTo0x0
      (world0\<lparr>fetch_0x0 := Inr \<lparr>status = 200, statusText = ''OK'',
                                   body = ''  https://0x0.st/abc.txt'' @ [CHR 0x0A]\<rparr>\<rparr>)
      ''f.txt'')
     = Inr ''https://0x0.st/abc.txt''
   \<and> fst (uploadTo0x0
      (world0\<lparr>fetch_0x0 := Inr \<lparr>status = 200, statusText = ''OK'',
                                   body = [CHR 0xA0] @ ''x'' @ [CHR 0xA0]\<rparr>\<rparr>)
      ''f.txt'')
     = Inr ''x''"
proof -
  have a: "dec 500 = ''500''" by code_simp
  have c: "trim ([CHR 0xA0] @ ''x'' @ [CHR 0xA0]) = ''x''" by code_simp
  have b: "trim (''  https://0x0.st/abc.txt'' @ [CHR 0x0A]) = ''https://0x0.st/abc.txt''"
    by code_simp
  from a b
    uploadTo0x0_result [of
      "world0\<lparr>fetch_0x0 := Inr \<lparr>status = 500, statusText = ''Internal Server Error'', body = ''oops''\<rparr>\<rparr>"
      "\<lparr>status = 500, statusText = ''Internal Server Error'', body = ''oops''\<rparr>" "''f.txt''"]
    uploadTo0x0_result [of
      "world0\<lparr>fetch_0x0 := Inr \<lparr>status = 200, statusText = ''OK'',
                                   body = ''  https://0x0.st/abc.txt'' @ [CHR 0x0A]\<rparr>\<rparr>"
      "\<lparr>status = 200, statusText = ''OK'', body = ''  https://0x0.st/abc.txt'' @ [CHR 0x0A]\<rparr>"
      "''f.txt''"]
    uploadTo0x0_result [of
      "world0\<lparr>fetch_0x0 := Inr \<lparr>status = 200, statusText = ''OK'',
                                   body = [CHR 0xA0] @ ''x'' @ [CHR 0xA0]\<rparr>\<rparr>"
      "\<lparr>status = 200, statusText = ''OK'', body = [CHR 0xA0] @ ''x'' @ [CHR 0xA0]\<rparr>"
      "''f.txt''"]
    c
  show ?thesis by (simp add: world0_def)
qed

subsection \<open>Propagation of provider errors\<close>

lemma exn_to_string_suffix: "\<exists>pre. exn_to_string e = pre @ message e"
  by (cases e) auto

text \<open>
  Claim C5 as stated fails: the error of the provider does not leave the main process
  with its message unchanged. The \<open>upload-file\<close> handler catches it and throws a new
  error whose message puts \<open>Upload failed: Error: \<close> in front.
\<close>

theorem error_wrapped_counterexample:
  "fst (provider
      (world0\<lparr>fetch_0x0 := Inr \<lparr>status = 500, statusText = ''Internal Server Error'', body = ''oops''\<rparr>\<rparr>)
      ''/tmp/f.txt'' ZeroXZero)
     = Inl (JsError ''Error'' ''Upload to 0x0.st failed: 500 Internal Server Error - oops'')
   \<and> fst (upload_file
      (world0\<lparr>fetch_0x0 := Inr \<lparr>status = 500, statusText = ''Internal Server Error'', body = ''oops''\<rparr>\<rparr>)
      ''/tmp/f.txt'' ZeroXZero)
     = Inl (JsError ''Error''
         ''Upload failed: Error: Upload to 0x0.st failed: 500 Internal Server Error - oops'')
   \<and> fst (upload_file
      (world0\<lparr>fetch_0x0 := Inr \<lparr>status = 500, statusText = ''Internal Server Error'', body = ''oops''\<rparr>\<rparr>)
      ''/tmp/f.txt'' ZeroXZero)
     \<noteq> fst (provider
      (world0\<lparr>fetch_0x0 := Inr \<lparr>status = 500, statusText = ''Internal Server Error'', body = ''oops''\<rparr>\<rparr>)
      ''/tmp/f.txt'' ZeroXZero)"
  by code_simp

lemma uploadTo0x0_calls: "snd (uploadTo0x0 w n) = [Post0x0 n]"
  by (simp add: uploadTo0x0_def split: sum.splits)

lemma drive_upload_calls:
  "snd (drive_upload w n) \<in>
     {[], [DriveFilesCreate (fst (resolve_credentials w)) (snd (resolve_credentials w)) n]}
   \<or> (\<exists>fid. snd (drive_upload w n) =
         [DriveFilesCreate (fst (resolve_credentials w)) (snd (resolve_credentials w)) n,
          DrivePermissionsCreate fid])"
  by (cases "resolve_credentials w")
     (simp add: drive_upload_def split: sum.splits option.splits)

lemma uploadToGoogleDrive_calls: "snd (uploadToGoogleDrive w n) = snd (drive_upload w n)"
  by (simp add: uploadToGoogleDrive_def split: prod.splits sum.splits)

lemma upload_file_calls: "snd (upload_file w p v) = snd (provider w p v)"
  by (simp add: upload_file_def split: prod.splits sum.splits)

lemma provider_calls:
  "snd (provider w p v) = [] \<or> (\<exists>n. snd (provider w p v) = [Post0x0 n])
   \<or> (\<exists>a b n. snd (provider w p v) = [DriveFilesCreate a b n])
   \<or> (\<exists>a b n fid. snd (provider w p v) = [DriveFilesCreate a b n, DrivePermissionsCreate fid])"
proof (cases "read_fails w")
  case (Some e)
  then show ?thesis by (simp add: provider_def)
next
  case None
  show ?thesis
  proof (cases v)
    case ZeroXZero
    with None show ?thesis by (simp add: provider_def uploadTo0x0_calls)
  next
    case GoogleDrive
    with None have "snd (provider w p v) = snd (drive_upload w (or_else (last_segment p) ''file''))"
      by (simp add: provider_def uploadToGoogleDrive_calls)
    with drive_upload_calls [of w "or_else (last_segment p) ''file''"] show ?thesis by auto
  qed
qed

text \<open>
  Claim C5, amended. A failure of the provider reaches the renderer wrapped: the handler
  throws \<open>Upload failed: \<close> followed by the rendering of the provider's error, which
  ends with the provider's message, and the Google Drive provider wraps its own failures
  the same way with \<open>Google Drive upload failed: \<close>. The renderer stores the message of
  the error it receives as the entry's error and sets the state to error. Nothing is
  retried: a rejection makes no further call and starts no upload, and one run of the
  handler makes each remote call at most once.
\<close>

theorem provider_error_wrapped_once:
  "(fst (provider w p v) = Inl e \<longrightarrow>
      fst (upload_file w p v) = Inl (JsError ''Error'' (''Upload failed: '' @ exn_to_string e))
      \<and> (\<exists>pre. ''Upload failed: '' @ exn_to_string e = pre @ message e))
   \<and> (fst (drive_upload w n) = Inl e \<longrightarrow>
      fst (uploadToGoogleDrive w n)
        = Inl (JsError ''Error'' (''Google Drive upload failed: '' @ exn_to_string e)))
   \<and> (k < length (inflight s) \<and> fileIndex (inflight s ! k) < length (files s) \<longrightarrow>
      state (files (step (Reject k (ErrorObject m)) s) ! fileIndex (inflight s ! k)) = Error
      \<and> error (files (step (Reject k (ErrorObject m)) s) ! fileIndex (inflight s ! k)) = Some m
      \<and> error (files (step (Reject k NonError) s) ! fileIndex (inflight s ! k))
          = Some ''Upload failed'')
   \<and> effects (step (Reject k r) s) = effects s
   \<and> length (inflight (step (Reject k r) s)) \<le> length (inflight s)
   \<and> (snd (upload_file w p v) = [] \<or> (\<exists>n. snd (upload_file w p v) = [Post0x0 n])
       \<or> (\<exists>a b n. snd (upload_file w p v) = [DriveFilesCreate a b n])
       \<or> (\<exists>a b n fid. snd (upload_file w p v)
             = [DriveFilesCreate a b n, DrivePermissionsCreate fid]))"
proof (intro conjI impI)
  assume "fst (provider w p v) = Inl e"
  then show "fst (upload_file w p v) = Inl (JsError ''Error'' (''Upload failed: '' @ exn_to_string e))"
    by (cases "provider w p v") (simp add: upload_file_def new_Error_def)
next
  from exn_to_string_suffix [of e] obtain pre where "exn_to_string e = pre @ message e" ..
  then have "''Upload failed: '' @ exn_to_string e = (''Upload failed: '' @ pre) @ message e"
    by simp
  then show "\<exists>pre. ''Upload failed: '' @ exn_to_string e = pre @ message e" ..
next
  assume "fst (drive_upload w n) = Inl e"
  then show "fst (uploadToGoogleDrive w n)
        = Inl (JsError ''Error'' (''Google Drive upload failed: '' @ exn_to_string e))"
    by (cases "drive_upload w n") (simp add: uploadToGoogleDrive_def new_Error_def)
next
  assume a: "k < length (inflight s) \<and> fileIndex (inflight s ! k) < length (files s)"
  then show "state (files (step (Reject k (ErrorObject m)) s) ! fileIndex (inflight s ! k)) = Error"
    by (simp add: uploadFile_rejected_def settle_def map_at_nth)
  from a show "error (files (step (Reject k (ErrorObject m)) s) ! fileIndex (inflight s ! k)) = Some m"
    by (simp add: uploadFile_rejected_def settle_def map_at_nth)
  from a show "error (files (step (Reject k NonError) s) ! fileIndex (inflight s ! k))
          = Some ''Upload failed''"
    by (simp add: uploadFile_rejected_def settle_def map_at_nth)
next
  show "effects (step (Reject k r) s) = effects s"
    by (simp add: uploadFile_rejected_def settle_def)
next
  show "length (inflight (step (Reject k r) s)) \<le> length (inflight s)"
    by (simp add: uploadFile_rejected_def settle_def)
next
  from provider_calls [of w p v]
  show "snd (upload_file w p v) = [] \<or> (\<exists>n. snd (upload_file w p v) = [Post0x0 n])
       \<or> (\<exists>a b n. snd (upload_file w p v) = [DriveFilesCreate a b n])
       \<or> (\<exists>a b n fid. snd (upload_file w p v)
             = [DriveFilesCreate a b n, DrivePermissionsCreate fid])"
    by (simp only: upload_file_calls)
qed

theorem provider_error_wrapped_once_witness:
  "fst (provider
      (world0\<lparr>fetch_0x0 := Inr \<lparr>status = 500, statusText = ''Internal Server Error'', body = ''oops''\<rparr>\<rparr>)
      ''/tmp/f.txt'' ZeroXZero)
     = Inl (JsError ''Error'' ''Upload to 0x0.st failed: 500 Internal Server Error - oops'')
   \<and> fst (upload_file
      (world0\<lparr>fetch_0x0 := Inr \<lparr>status = 500, statusText = ''Internal Server Error'', body = ''oops''\<rparr>\<rparr>)
      ''/tmp/f.txt'' ZeroXZero)
     = Inl (JsError ''Error''
         ''Upload failed: Error: Upload to 0x0.st failed: 500 Internal Server Error - oops'')
   \<and> fst (drive_upload world0 ''f.txt'')
     = Inl (JsError ''Error''
         ''Google Drive credentials not configured. Please configure them in the settings.'')
   \<and> fst (uploadToGoogleDrive world0 ''f.txt'')
     = Inl (JsError ''Error''
         ''Google Drive upload failed: Error: Google Drive credentials not configured. Please configure them in the settings.'')
   \<and> map error (files (step (Reject 0 (ErrorObject ''boom''))
        (run [AddFile ''/a'', UploadClick 0] init))) = [Some ''boom'']"
proof -
  have a: "fst (provider
      (world0\<lparr>fetch_0x0 := Inr \<lparr>status = 500, statusText = ''Internal Server Error'', body = ''oops''\<rparr>\<rparr>)
      ''/tmp/f.txt'' ZeroXZero)
     = Inl (JsError ''Error'' ''Upload to 0x0.st failed: 500 Internal Server Error - oops'')"
    by code_simp
  have b: "fst (drive_upload world0 ''f.txt'')
     = Inl (JsError ''Error''
         ''Google Drive credentials not configured. Please configure them in the settings.'')"
    by code_simp
  have c: "map error (files (step (Reject 0 (ErrorObject ''boom''))
        (run [AddFile ''/a'', UploadClick 0] init))) = [Some ''boom'']"
    by code_simp
  from a b c
    provider_error_wrapped_once [of
      "world0\<lparr>fetch_0x0 := Inr \<lparr>status = 500, statusText = ''Internal Server Error'', body = ''oops''\<rparr>\<rparr>"
      "''/tmp/f.txt''" ZeroXZero
      "JsError ''Error'' ''Upload to 0x0.st failed: 500 Internal Server Error - oops''"]
    provider_error_wrapped_once [of world0 _ _
      "JsError ''Error'' ''Google Drive credentials not configured. Please configure them in the settings.''"
      "''f.txt''"]
  show ?thesis by simp
qed

subsection \<open>Credential resolution\<close>








subsection \<open>Reading the persisted configuration\<close>

text \<open>
  Claim C9. The two read handlers never throw. \<open>get-google-credentials\<close> returns
  \<open>null\<close> when the file is missing, unreadable or unparsable, and whenever the stored
  record is not a complete credentials record; \<open>get-auto-copy\<close> returns \<open>false\<close>
  when the file is missing, unreadable or unparsable, and whenever the stored record has
  no truthy \<open>autoCopy\<close>.
\<close>

theorem corrupted_state_defaults:
  "(\<exists>v. get_google_credentials d = Inr v) \<and> (\<exists>v. get_auto_copy d = Inr v)
   \<and> get_google_credentials NoFile = Inr JNull
   \<and> get_google_credentials (Unreadable e) = Inr JNull
   \<and> get_google_credentials (Corrupt e) = Inr JNull
   \<and> (\<not> complete_credentials d \<longrightarrow> get_google_credentials d = Inr JNull)
   \<and> get_auto_copy NoFile = Inr (JBool False)
   \<and> get_auto_copy (Unreadable e) = Inr (JBool False)
   \<and> get_auto_copy (Corrupt e) = Inr (JBool False)
   \<and> (\<not> truthy (persisted_field d ''autoCopy'') \<longrightarrow> get_auto_copy d = Inr (JBool False))"
proof (intro conjI impI)
  show "\<exists>v. get_google_credentials d = Inr v"
    by (cases "get_google_credentials_try d") (simp_all add: get_google_credentials_def)
  show "\<exists>v. get_auto_copy d = Inr v"
    by (cases "get_auto_copy_try d") (simp_all add: get_auto_copy_def)
  show "get_google_credentials NoFile = Inr JNull"
    by (simp add: get_google_credentials_def get_google_credentials_try_def)
  show "get_google_credentials (Unreadable e) = Inr JNull"
    by (simp add: get_google_credentials_def get_google_credentials_try_def)
  show "get_google_credentials (Corrupt e) = Inr JNull"
    by (simp add: get_google_credentials_def get_google_credentials_try_def)
  show "get_auto_copy NoFile = Inr (JBool False)"
    by (simp add: get_auto_copy_def get_auto_copy_try_def)
  show "get_auto_copy (Unreadable e) = Inr (JBool False)"
    by (simp add: get_auto_copy_def get_auto_copy_try_def)
  show "get_auto_copy (Corrupt e) = Inr (JBool False)"
    by (simp add: get_auto_copy_def get_auto_copy_try_def)
next
  assume a: "\<not> truthy (persisted_field d ''autoCopy'')"
  show "get_auto_copy d = Inr (JBool False)"
  proof (cases d)
    case (Json config)
    with a show ?thesis
      by (cases "get_prop config ''autoCopy''")
         (simp_all add: get_auto_copy_def get_auto_copy_try_def and_then_def persisted_field_def)
  qed (simp_all add: get_auto_copy_def get_auto_copy_try_def)
next
  assume a: "\<not> complete_credentials d"
  show "get_google_credentials d = Inr JNull"
  proof (cases d)
    case (Json config)
    show ?thesis
    proof (cases "get_prop config ''googleCredentials''")
      case (Inl x)
      with Json show ?thesis
        by (simp add: get_google_credentials_def get_google_credentials_try_def and_then_def)
    next
      case (Inr gc)
      with Json have pf: "persisted_field d ''googleCredentials'' = gc"
        by (simp add: persisted_field_def)
      show ?thesis
      proof (cases gc)
        case (JObj g)
        with a pf have "\<not> (case (map_of g ''clientId'', map_of g ''clientSecret'') of
                 (Some a, Some b) \<Rightarrow> truthy a \<and> truthy b | _ \<Rightarrow> False)"
          by (simp add: complete_credentials_def)
        then have "\<not> truthy (case map_of g ''clientId'' of None \<Rightarrow> JUndefined | Some v \<Rightarrow> v)
            \<or> \<not> truthy (case map_of g ''clientSecret'' of None \<Rightarrow> JUndefined | Some v \<Rightarrow> v)"
          by (auto split: option.splits)
        with Json Inr JObj show ?thesis
          by (auto simp: get_google_credentials_def get_google_credentials_try_def and_then_def)
      qed (use Json Inr in \<open>simp_all add: get_google_credentials_def
            get_google_credentials_try_def and_then_def\<close>)
    qed
  qed (simp_all add: get_google_credentials_def get_google_credentials_try_def)
qed

theorem corrupted_state_defaults_witness:
  "\<not> complete_credentials (Json (JObj [(''googleCredentials'', JObj [(''clientId'', JStr ''id'')])]))
   \<and> get_google_credentials (Json (JObj [(''googleCredentials'', JObj [(''clientId'', JStr ''id'')])]))
       = Inr JNull
   \<and> complete_credentials (Json (JObj [(''googleCredentials'',
         JObj [(''clientId'', JStr ''id''), (''clientSecret'', JStr ''sec'')])]))
   \<and> get_google_credentials (Json (JObj [(''googleCredentials'',
         JObj [(''clientId'', JStr ''id''), (''clientSecret'', JStr ''sec'')])]))
       = Inr (JObj [(''clientId'', JStr ''id''), (''clientSecret'', JStr ''sec'')])
   \<and> get_google_credentials (Json JNull) = Inr JNull
   \<and> get_auto_copy (Json (JObj [(''autoStart'', JBool True)])) = Inr (JBool False)
   \<and> get_auto_copy (Json (JObj [(''autoCopy'', JBool True)])) = Inr (JBool True)
   \<and> get_auto_copy (Json JNull) = Inr (JBool False)"
proof -
  have a: "\<not> complete_credentials (Json (JObj [(''googleCredentials'', JObj [(''clientId'', JStr ''id'')])]))"
    by (simp add: complete_credentials_def persisted_field_def)
  have b: "complete_credentials (Json (JObj [(''googleCredentials'',
         JObj [(''clientId'', JStr ''id''), (''clientSecret'', JStr ''sec'')])]))"
    by (simp add: complete_credentials_def persisted_field_def)
  have c: "get_google_credentials (Json (JObj [(''googleCredentials'',
         JObj [(''clientId'', JStr ''id''), (''clientSecret'', JStr ''sec'')])]))
       = Inr (JObj [(''clientId'', JStr ''id''), (''clientSecret'', JStr ''sec'')])"
    by (simp add: get_google_credentials_def get_google_credentials_try_def and_then_def)
  have d: "\<not> truthy (persisted_field (Json (JObj [(''autoStart'', JBool True)])) ''autoCopy'')"
    by (simp add: persisted_field_def)
  have e: "get_auto_copy (Json (JObj [(''autoCopy'', JBool True)])) = Inr (JBool True)"
    by (simp add: get_auto_copy_def get_auto_copy_try_def and_then_def)
  have f: "\<not> complete_credentials (Json JNull) \<and> \<not> truthy (persisted_field (Json JNull) ''autoCopy'')"
    by (simp add: complete_credentials_def persisted_field_def)
  from a b c d e f
    corrupted_state_defaults [of "Json (JObj [(''googleCredentials'', JObj [(''clientId'', JStr ''id'')])])"]
    corrupted_state_defaults [of "Json (JObj [(''autoStart'', JBool True)])"]
    corrupted_state_defaults [of "Json JNull"]
  show ?thesis by simp
qed

subsection \<open>Writing the persisted configuration\<close>









subsection \<open>The state machine in runs without removal\<close>

lemma flight_inv_init: "flight_inv init"
  by (simp add: flight_inv_def init_def)

lemma addFile_prefix: "\<exists>ys. addFile p xs = xs @ ys"
  by (simp add: addFile_def Let_def split: option.splits)

lemma flight_inv_files_same_state:
  assumes "flight_inv s"
    and "length fs = length (files s)"
    and "\<And>c. c \<in> set (inflight s) \<Longrightarrow> state (fs ! fileIndex c) = state (files s ! fileIndex c)"
  shows "flight_inv (s\<lparr>files := fs\<rparr>)"
  using assms by (simp add: flight_inv_def)

lemma flight_inv_settle:
  assumes inv: "flight_inv s" and k: "k < length (inflight s)"
  shows "flight_inv (settle k s\<lparr>files := map_at (fileIndex (inflight s ! k)) g' (files s)\<rparr>)"
proof -
  let ?xs = "inflight s"
  let ?j = "fileIndex (?xs ! k)"
  from inv have d: "distinct (map fileIndex ?xs)" by (simp add: flight_inv_def)
  then have d': "distinct (map fileIndex (take k ?xs @ drop (Suc k) ?xs))"
    using distinct_take_drop_Suc [of "map fileIndex ?xs" k] by (simp add: take_map drop_map)
  from d k have "map fileIndex ?xs ! k \<notin> set (take k (map fileIndex ?xs) @ drop (Suc k) (map fileIndex ?xs))"
    by (intro nth_notin_take_drop) simp_all
  with k have ne: "?j \<notin> fileIndex ` set (take k ?xs @ drop (Suc k) ?xs)"
    by (simp add: take_map drop_map image_Un)
  have sub: "set (take k ?xs @ drop (Suc k) ?xs) \<subseteq> set ?xs"
    by (auto dest: in_set_takeD in_set_dropD)
  have "fileIndex c < length (files s) \<and>
        state (map_at ?j g' (files s) ! fileIndex c) = Uploading"
    if c: "c \<in> set (take k ?xs @ drop (Suc k) ?xs)" for c
  proof -
    from c sub have "c \<in> set ?xs" by blast
    with inv have 1: "fileIndex c < length (files s)" "state (files s ! fileIndex c) = Uploading"
      by (simp_all add: flight_inv_def)
    from c ne have "fileIndex c \<noteq> ?j" by (metis imageI)
    with 1 show ?thesis by (simp add: map_at_nth)
  qed
  with d' show ?thesis by (simp add: flight_inv_def settle_def map_at_nth)
qed

lemma flight_inv_step:
  assumes inv: "flight_inv s" and e: "\<not> is_removal e"
  shows "flight_inv (step e s)"
proof (cases e)
  case (AddFile p)
  obtain ys where a: "addFile p (files s) = files s @ ys" using addFile_prefix by blast
  with inv show ?thesis unfolding AddFile by (auto simp: flight_inv_def nth_append)
next
  case (UploadClick i)
  show ?thesis
  proof (cases "i < length (files s) \<and> state (files s ! i) = Idle")
    case True
    from True inv have n: "i \<notin> fileIndex ` set (inflight s)" by (auto simp: flight_inv_def)
    have "fileIndex c < length (files s) \<and>
        state ((files s)[i := (files s ! i)\<lparr>state := Uploading, progress := 0\<rparr>] ! fileIndex c) = Uploading"
      if c: "c \<in> set (inflight s)" for c
    proof -
      from c inv have 1: "fileIndex c < length (files s)" "state (files s ! fileIndex c) = Uploading"
        by (simp_all add: flight_inv_def)
      from c n have "fileIndex c \<noteq> i" by (metis imageI)
      with 1 show ?thesis by simp
    qed
    moreover from inv have "distinct (map fileIndex (inflight s))" by (simp add: flight_inv_def)
    ultimately show ?thesis using True n unfolding UploadClick
      by (simp add: flight_inv_def uploadFile_begin_def map_at_nth)
  next
    case False
    then have "step e s = s" by (auto simp: UploadClick)
    with inv show ?thesis by simp
  qed
next
  case (RemoveClick i)
  with e show ?thesis by simp
next
  case (Tick k)
  show ?thesis
  proof (cases "k < length (inflight s)")
    case True
    have "flight_inv (s\<lparr>files := progressInterval (inflight s ! k) (files s)\<rparr>)"
      using inv
      by (intro flight_inv_files_same_state)
         (simp_all add: progressInterval_def map_at_nth nth_list_update)
    with True show ?thesis by (simp add: Tick)
  next
    case False
    with inv show ?thesis by (simp add: Tick)
  qed
next
  case (Resolve k u)
  show ?thesis
  proof (cases "k < length (inflight s)")
    case True
    from flight_inv_settle [OF inv True, of "\<lambda>f. f\<lparr>state := Success, progress := 100, url := Some (trim u)\<rparr>"]
    have "flight_inv (settle k s\<lparr>files := map_at (fileIndex (inflight s ! k))
        (\<lambda>f. f\<lparr>state := Success, progress := 100, url := Some (trim u)\<rparr>) (files s)\<rparr>)" by simp
    then show ?thesis using True
      by (simp add: Resolve uploadFile_resolved_def flight_inv_def settle_def)
  next
    case False
    with inv show ?thesis by (simp add: Resolve)
  qed
next
  case (Reject k r)
  show ?thesis
  proof (cases "k < length (inflight s)")
    case True
    from flight_inv_settle [OF inv True, of "\<lambda>f. f\<lparr>state := Error, progress := 0,
        error := Some (case r of ErrorObject m \<Rightarrow> m | NonError \<Rightarrow> ''Upload failed'')\<rparr>"]
    have "flight_inv (settle k s\<lparr>files := map_at (fileIndex (inflight s ! k))
        (\<lambda>f. f\<lparr>state := Error, progress := 0,
        error := Some (case r of ErrorObject m \<Rightarrow> m | NonError \<Rightarrow> ''Upload failed'')\<rparr>) (files s)\<rparr>)" by simp
    then show ?thesis using True
      by (simp add: Reject uploadFile_rejected_def flight_inv_def settle_def)
  next
    case False
    with inv show ?thesis by (simp add: Reject)
  qed
next
  case (SetAutoCopy b)
  with inv show ?thesis by (simp add: flight_inv_def)
next
  case (SelectService v)
  with inv show ?thesis by (simp add: flight_inv_def)
qed

lemma flight_inv_run:
  "flight_inv s \<Longrightarrow> \<forall>e \<in> set evs. \<not> is_removal e \<Longrightarrow> flight_inv (run evs s)"
  unfolding run_def by (induction evs arbitrary: s) (simp_all add: flight_inv_step)

text \<open>
  The other side of claim C2. As long as no entry has been removed and the event is not
  a removal, every event moves the state of an entry along the machine only: it stays,
  or goes from idle to uploading, or from uploading to success or error. The continuation
  of an upload then finds at its index the entry it started with, still uploading.
\<close>

theorem state_machine_without_removal:
  "s = run evs init \<and> (\<forall>x \<in> set evs. \<not> is_removal x) \<and> \<not> is_removal e
     \<and> entry p s = Some f \<and> entry p (step e s) = Some f'
   \<longrightarrow> legal_move (state f) (state f')"
proof (intro impI, elim conjE)
  assume s: "s = run evs init" and nr: "\<forall>x \<in> set evs. \<not> is_removal x" and e: "\<not> is_removal e"
    and f: "entry p s = Some f" and f': "entry p (step e s) = Some f'"
  from s have inv: "app_inv s" by (simp add: app_inv_run app_inv_init)
  from s nr have fl: "flight_inv s" by (simp add: flight_inv_run flight_inv_init)
  note ev = entry_step_event [OF inv f f']
  show "legal_move (state f) (state f')"
  proof (cases e)
    case (Resolve k u)
    with ev have "f' = f \<or> (k < length (inflight s) \<and> f = files s ! fileIndex (inflight s ! k)
        \<and> state f' = Success)" by auto
    moreover have "state (files s ! fileIndex (inflight s ! k)) = Uploading" if "k < length (inflight s)"
      using fl that by (simp add: flight_inv_def)
    ultimately show ?thesis by (auto simp: legal_move_def)
  next
    case (Reject k r)
    with ev have "f' = f \<or> (k < length (inflight s) \<and> f = files s ! fileIndex (inflight s ! k)
        \<and> state f' = Error)" by auto
    moreover have "state (files s ! fileIndex (inflight s ! k)) = Uploading" if "k < length (inflight s)"
      using fl that by (simp add: flight_inv_def)
    ultimately show ?thesis by (auto simp: legal_move_def)
  next
    case (RemoveClick i)
    with e show ?thesis by simp
  qed (use ev in \<open>auto simp: legal_move_def\<close>)
qed

theorem state_machine_without_removal_witness:
  "entry ''/b'' (run [AddFile ''/a'', AddFile ''/b'', UploadClick 0, UploadClick 1] init)
     = Some \<lparr>path = ''/b'', name = ''b'', state = Uploading, progress = 0, url = None, error = None\<rparr>
   \<and> entry ''/b'' (step (Resolve 1 ''http://u'')
        (run [AddFile ''/a'', AddFile ''/b'', UploadClick 0, UploadClick 1] init))
     = Some \<lparr>path = ''/b'', name = ''b'', state = Success, progress = 100, url = Some ''http://u'',
             error = None\<rparr>
   \<and> legal_move Uploading Success \<and> \<not> legal_move Success Error \<and> \<not> legal_move Idle Success"
proof -
  have a: "entry ''/b'' (run [AddFile ''/a'', AddFile ''/b'', UploadClick 0, UploadClick 1] init)
     = Some \<lparr>path = ''/b'', name = ''b'', state = Uploading, progress = 0, url = None, error = None\<rparr>"
    by code_simp
  have b: "entry ''/b'' (step (Resolve 1 ''http://u'')
        (run [AddFile ''/a'', AddFile ''/b'', UploadClick 0, UploadClick 1] init))
     = Some \<lparr>path = ''/b'', name = ''b'', state = Success, progress = 100, url = Some ''http://u'',
             error = None\<rparr>"
    by code_simp
  have c: "\<not> legal_move Success Error \<and> \<not> legal_move Idle Success" by (simp add: legal_move_def)
  from a b c state_machine_without_removal [of
      "run [AddFile ''/a'', AddFile ''/b'', UploadClick 0, UploadClick 1] init"
      "[AddFile ''/a'', AddFile ''/b'', UploadClick 0, UploadClick 1]" "Resolve 1 ''http://u''"
      "''/b''"
      "\<lparr>path = ''/b'', name = ''b'', state = Uploading, progress = 0, url = None, error = None\<rparr>"
      "\<lparr>path = ''/b'', name = ''b'', state = Success, progress = 100, url = Some ''http://u'',
             error = None\<rparr>"]
  show ?thesis by simp
qed

end
